theory Spec2Isabelle
  imports Complex_Main "HOL-Library.Word"
begin

section \<open>VariablesHandler (src/System/src/VariablesHandler.cpp)\<close>

text \<open>
  An \<open>iDynTree::IndexRange\<close> is a pair of an offset and a size. The handler keeps a
  map from variable names to index ranges and the running total \<open>m_numberOfVariables\<close>,
  a \<open>std::size_t\<close>, taken here as a 64-bit word so that \<open>+=\<close> wraps as it does in C++.
\<close>

record IndexRange =
  range_offset :: "64 word"
  range_size :: "64 word"

record VariablesHandler =
  m_variables :: "string \<rightharpoonup> IndexRange"
  m_numberOfVariables :: "64 word"

definition addVariable :: "VariablesHandler \<Rightarrow> string \<Rightarrow> 64 word \<Rightarrow> bool \<times> VariablesHandler" where
  "addVariable h name sz =
     (if m_variables h name \<noteq> None then (False, h)
      else
        let indexRange = \<lparr>range_offset = m_numberOfVariables h, range_size = sz\<rparr>
        in (True, h\<lparr>m_variables := (m_variables h)(name \<mapsto> indexRange),
                    m_numberOfVariables := m_numberOfVariables h + sz\<rparr>))"

definition getNumberOfVariables :: "VariablesHandler \<Rightarrow> 64 word" where
  "getNumberOfVariables h = m_numberOfVariables h"

definition emptyHandler :: VariablesHandler where
  "emptyHandler = \<lparr>m_variables = Map.empty, m_numberOfVariables = 0\<rparr>"

section \<open>Periodic workers: the wake-time accumulator\<close>

text \<open>
  \<open>lookForExogenousSignals\<close>, \<open>lookForNewLogs\<close> and \<open>recordVideo\<close> open their loop with
  the same five statements. Times are \<open>std::chrono::nanoseconds\<close>, a signed 64-bit count
  of nanoseconds: they are 64-bit words here, read as signed by \<open>sint\<close>, and \<open>-\<close> and \<open>+=\<close>
  wrap around in two's complement as the machine addition does. The test
  \<open>(time - oldTime).count() < 1e-12\<close> compares the signed count of the difference,
  converted to a floating-point number, with the constant \<open>1e-12\<close>; the conversion keeps
  the sign and maps 0 to 0, so the comparison is the one between the exact values.
\<close>

record worker_clock =
  oldTime :: "64 word"
  time :: "64 word"
  wakeUpTime :: "64 word"

definition worker_clock_init :: "64 word \<Rightarrow> worker_clock" where
  \<comment> \<open>\<open>auto time = now(); auto oldTime = time; auto wakeUpTime = time;\<close>\<close>
  "worker_clock_init now = \<lparr>oldTime = now, time = now, wakeUpTime = now\<rparr>"

definition clock_reset :: "64 word \<Rightarrow> 64 word \<Rightarrow> bool" where
  \<comment> \<open>\<open>(time - oldTime).count() < 1e-12\<close>\<close>
  "clock_reset t old = (real_of_int (sint (t - old)) < 1 / 10 ^ 12)"

definition wake_cycle :: "64 word \<Rightarrow> worker_clock \<Rightarrow> 64 word \<Rightarrow> worker_clock" where
  \<comment> \<open>the head of one loop iteration; \<open>now\<close> is what \<open>clock().now()\<close> returns in it\<close>
  "wake_cycle period s now =
     (let s1 = s\<lparr>oldTime := time s\<rparr>;
          s2 = s1\<lparr>time := now\<rparr>;
          s3 = (if clock_reset (time s2) (oldTime s2) then s2\<lparr>wakeUpTime := time s2\<rparr> else s2)
      in s3\<lparr>wakeUpTime := wakeUpTime s3 + period\<rparr>)"

definition lookForExogenousSignals_wake :: "worker_clock \<Rightarrow> 64 word \<Rightarrow> worker_clock" where
  \<comment> \<open>\<open>lookForExogenousSignalPeriod = 1s\<close>\<close>
  "lookForExogenousSignals_wake = wake_cycle 1000000000"

definition lookForNewLogs_wake :: "worker_clock \<Rightarrow> 64 word \<Rightarrow> worker_clock" where
  \<comment> \<open>\<open>lookForNewLogsPeriod = 2s\<close>\<close>
  "lookForNewLogs_wake = wake_cycle 2000000000"

definition recordVideo_wake :: "64 word \<Rightarrow> worker_clock \<Rightarrow> 64 word \<Rightarrow> worker_clock" where
  \<comment> \<open>\<open>recordVideoPeriod\<close> is computed from the frame rate of the writer; it is a
      parameter here\<close>
  "recordVideo_wake recordVideoPeriod = wake_cycle recordVideoPeriod"

text \<open>The difference, or the sum, of two signed counts fits in 64 bits.\<close>

definition no_overflow_sub :: "64 word \<Rightarrow> 64 word \<Rightarrow> bool" where
  "no_overflow_sub a b = (- (2 ^ 63) \<le> sint a - sint b \<and> sint a - sint b < 2 ^ 63)"

definition no_overflow_add :: "64 word \<Rightarrow> 64 word \<Rightarrow> bool" where
  "no_overflow_add a b = (- (2 ^ 63) \<le> sint a + sint b \<and> sint a + sint b < 2 ^ 63)"

section \<open>String searching\<close>

text \<open>
  \<open>std::string::find(str, pos)\<close>: the first index at or after \<open>pos\<close> where \<open>str\<close> occurs,
  \<open>npos\<close> (here \<open>None\<close>) when there is none or when \<open>pos\<close> is beyond the end. The empty
  string occurs at every index up to the end.
\<close>

fun find_first :: "string \<Rightarrow> string \<Rightarrow> nat option" where
  "find_first toSearch [] = (if toSearch = [] then Some 0 else None)"
| "find_first toSearch (c # cs) =
     (if take (length toSearch) (c # cs) = toSearch then Some 0
      else map_option Suc (find_first toSearch cs))"

definition str_find :: "string \<Rightarrow> string \<Rightarrow> nat \<Rightarrow> nat option" where
  "str_find data toSearch pos =
     (if length data < pos then None
      else map_option (\<lambda>i. pos + i) (find_first toSearch (drop pos data)))"

fun hasSubstring :: "string \<Rightarrow> string list \<Rightarrow> bool" where
  "hasSubstring str [] = False"
| "hasSubstring str (substring # substrings) =
     (if str_find str substring 0 \<noteq> None then True else hasSubstring str substrings)"

section \<open>Log discovery (lookForNewLogs)\<close>

text \<open>
  One entry of the port list returned by \<open>getPortsList\<close>, together with what the network
  answers for it during the scan: the result of \<open>Network::exists\<close> and the result that
  \<open>Network::connect\<close> gives. The code never reads the result of \<open>connect\<close>; it is kept in
  the trace of calls.
\<close>

record port_probe =
  port_name :: string
  net_exists :: bool
  net_connect :: bool

record log_discovery =
  m_textLoggingPortNames :: "string set"
  m_textLoggingSubnames :: "string list"
  connect_calls :: "(string \<times> bool) list"

definition textLoggingPortPrefix :: string where
  "textLoggingPortPrefix = ''/log/''"

definition log_discovery_init :: "string list \<Rightarrow> log_discovery" where
  "log_discovery_init subnames =
     \<lparr>m_textLoggingPortNames = {}, m_textLoggingSubnames = subnames, connect_calls = []\<rparr>"

definition should_connect :: "log_discovery \<Rightarrow> port_probe \<Rightarrow> bool" where
  \<comment> \<open>the condition of the \<open>if\<close>; \<open>rfind(prefix, 0) == 0\<close> holds when the name starts
      with the prefix\<close>
  "should_connect d p =
     (take (length textLoggingPortPrefix) (port_name p) = textLoggingPortPrefix
      \<and> port_name p \<notin> m_textLoggingPortNames d
      \<and> (m_textLoggingSubnames d = [] \<or> hasSubstring (port_name p) (m_textLoggingSubnames d))
      \<and> net_exists p)"

definition scan_port :: "log_discovery \<Rightarrow> port_probe \<Rightarrow> log_discovery" where
  "scan_port d p =
     (if should_connect d p
      then d\<lparr>m_textLoggingPortNames := insert (port_name p) (m_textLoggingPortNames d),
             connect_calls := connect_calls d @ [(port_name p, net_connect p)]\<rparr>
      else d)"

definition lookForNewLogs_scan :: "log_discovery \<Rightarrow> port_probe list \<Rightarrow> log_discovery" where
  \<comment> \<open>\<open>for (const auto& port : yarpPorts)\<close>\<close>
  "lookForNewLogs_scan d yarpPorts = foldl scan_port d yarpPorts"

definition lookForNewLogs_scans :: "log_discovery \<Rightarrow> port_probe list list \<Rightarrow> log_discovery" where
  \<comment> \<open>the scans of the successive iterations of the worker's loop\<close>
  "lookForNewLogs_scans d scans = foldl lookForNewLogs_scan d scans"

text \<open>The trace of calls and the set of names agree.\<close>

definition calls_match_names :: "log_discovery \<Rightarrow> bool" where
  "calls_match_names d =
     (distinct (map fst (connect_calls d)) \<and>
      fst ` set (connect_calls d) = m_textLoggingPortNames d)"

text \<open>What a scan appends to the trace of calls, and the names it may concern.\<close>

definition new_calls :: "log_discovery \<Rightarrow> log_discovery \<Rightarrow> (string \<times> bool) list" where
  "new_calls d d' = drop (length (connect_calls d)) (connect_calls d')"

definition extends_calls :: "log_discovery \<Rightarrow> log_discovery \<Rightarrow> bool" where
  "extends_calls d d' =
     (take (length (connect_calls d)) (connect_calls d') = connect_calls d \<and>
      length (connect_calls d) \<le> length (connect_calls d') \<and>
      m_textLoggingPortNames d \<subseteq> m_textLoggingPortNames d' \<and>
      fst ` set (new_calls d d') \<inter> m_textLoggingPortNames d = {})"

section \<open>Exogenous signal discovery (lookForExogenousSignals)\<close>

text \<open>
  The worker keeps two tables of bindings: \<open>m_vectorsCollectionSignals\<close>, whose entries
  carry the metadata of the collection, and \<open>m_vectorSignals\<close>, whose entries have none.
  Both are keyed by name and are walked in key order; they are association lists here.
  The generic lambda \<open>connectToExogeneous\<close> is instantiated once for each table, and its
  \<open>if constexpr\<close> block is compiled only for the first. What the network answers in one
  cycle is the record \<open>exo_net\<close>: the value of \<open>connect()\<close> for each binding and the result
  of \<open>getMetadata\<close> (\<open>None\<close> when it returns false and leaves the metadata as it was).
  The calls made are recorded as events.
\<close>

type_synonym metadata = "(string \<times> string list) list"

record VectorsCollectionSignal =
  connected :: bool
  metadata :: metadata

record VectorSignal =
  v_connected :: bool

datatype exo_event =
    ConnectCollection string bool
  | GetMetadata string bool
  | ConnectVector string bool

record exo_net =
  collection_connect :: "string \<Rightarrow> bool"
  collection_getMetadata :: "string \<Rightarrow> metadata option"
  vector_connect :: "string \<Rightarrow> bool"

definition connect_collection_signal ::
  "exo_net \<Rightarrow> string \<Rightarrow> VectorsCollectionSignal \<Rightarrow> VectorsCollectionSignal \<times> exo_event list" where
  "connect_collection_signal net name signal =
     (if connected signal then (signal, [])
      else
        let signal1 = signal\<lparr>connected := collection_connect net name\<rparr>;
            ev1 = [ConnectCollection name (connected signal1)]
        in if \<not> connected signal1 then (signal1, ev1)
           else (case collection_getMetadata net name of
                   None \<Rightarrow> (signal1, ev1 @ [GetMetadata name False])
                 | Some md \<Rightarrow> (signal1\<lparr>metadata := md\<rparr>, ev1 @ [GetMetadata name True])))"

definition connect_vector_signal ::
  "exo_net \<Rightarrow> string \<Rightarrow> VectorSignal \<Rightarrow> VectorSignal \<times> exo_event list" where
  "connect_vector_signal net name signal =
     (if v_connected signal then (signal, [])
      else
        let signal1 = signal\<lparr>v_connected := vector_connect net name\<rparr>
        in (signal1, [ConnectVector name (v_connected signal1)]))"

fun for_each_signal ::
  "(string \<Rightarrow> 's \<Rightarrow> 's \<times> exo_event list) \<Rightarrow> (string \<times> 's) list \<Rightarrow> (string \<times> 's) list \<times> exo_event list" where
  "for_each_signal body [] = ([], [])"
| "for_each_signal body ((name, signal) # signals) =
     (case body name signal of (signal', evs) \<Rightarrow>
        (case for_each_signal body signals of (signals', evs') \<Rightarrow>
           ((name, signal') # signals', evs @ evs')))"

record exo_discovery =
  m_vectorsCollectionSignals :: "(string \<times> VectorsCollectionSignal) list"
  m_vectorSignals :: "(string \<times> VectorSignal) list"

definition lookForExogenousSignals_cycle ::
  "exo_discovery \<Rightarrow> exo_net \<Rightarrow> exo_discovery \<times> exo_event list" where
  "lookForExogenousSignals_cycle st net =
     (case for_each_signal (connect_collection_signal net) (m_vectorsCollectionSignals st) of
        (cs, evs1) \<Rightarrow>
          (case for_each_signal (connect_vector_signal net) (m_vectorSignals st) of
             (vs, evs2) \<Rightarrow>
               (\<lparr>m_vectorsCollectionSignals = cs, m_vectorSignals = vs\<rparr>, evs1 @ evs2)))"

fun lookForExogenousSignals_cycles ::
  "exo_discovery \<Rightarrow> exo_net list \<Rightarrow> exo_discovery \<times> exo_event list" where
  "lookForExogenousSignals_cycles st [] = (st, [])"
| "lookForExogenousSignals_cycles st (net # nets) =
     (case lookForExogenousSignals_cycle st net of (st1, evs1) \<Rightarrow>
        (case lookForExogenousSignals_cycles st1 nets of (st2, evs2) \<Rightarrow> (st2, evs1 @ evs2)))"

definition exo_init :: "string list \<Rightarrow> string list \<Rightarrow> exo_discovery" where
  "exo_init collections vectors =
     \<lparr>m_vectorsCollectionSignals = map (\<lambda>n. (n, \<lparr>connected = False, metadata = []\<rparr>)) collections,
      m_vectorSignals = map (\<lambda>n. (n, \<lparr>v_connected = False\<rparr>)) vectors\<rparr>"

fun collection_event :: "string \<Rightarrow> exo_event \<Rightarrow> bool" where
  "collection_event n (ConnectCollection m r) = (m = n)"
| "collection_event n (GetMetadata m r) = (m = n)"
| "collection_event n (ConnectVector m r) = False"

fun vector_event :: "string \<Rightarrow> exo_event \<Rightarrow> bool" where
  "vector_event n (ConnectVector m r) = (m = n)"
| "vector_event n _ = False"

text \<open>The events that concern the bindings of the two tables, and the metadata requests made.\<close>

fun event_in_tables :: "string list \<Rightarrow> string list \<Rightarrow> exo_event \<Rightarrow> bool" where
  "event_in_tables collections vectors (ConnectCollection n r) = (n \<in> set collections)"
| "event_in_tables collections vectors (GetMetadata n r) = (n \<in> set collections)"
| "event_in_tables collections vectors (ConnectVector n r) = (n \<in> set vectors)"

fun metadata_requests :: "exo_event list \<Rightarrow> string list" where
  "metadata_requests [] = []"
| "metadata_requests (GetMetadata n r # evs) = n # metadata_requests evs"
| "metadata_requests (_ # evs) = metadata_requests evs"

text \<open>The cycles of a session as one binding sees them.\<close>

fun collection_session :: "string \<Rightarrow> VectorsCollectionSignal \<Rightarrow> exo_net list \<Rightarrow> VectorsCollectionSignal \<times> exo_event list" where
  "collection_session n s [] = (s, [])"
| "collection_session n s (net # nets) =
     (case connect_collection_signal net n s of (s1, e1) \<Rightarrow>
        (case collection_session n s1 nets of (s2, e2) \<Rightarrow> (s2, e1 @ e2)))"

fun vector_session :: "string \<Rightarrow> VectorSignal \<Rightarrow> exo_net list \<Rightarrow> VectorSignal \<times> exo_event list" where
  "vector_session n s [] = (s, [])"
| "vector_session n s (net # nets) =
     (case connect_vector_signal net n s of (s1, e1) \<Rightarrow>
        (case vector_session n s1 nets of (s2, e2) \<Rightarrow> (s2, e1 @ e2)))"

definition net_down :: exo_net where
  "net_down = \<lparr>collection_connect = (\<lambda>n. False), collection_getMetadata = (\<lambda>n. None),
                vector_connect = (\<lambda>n. False)\<rparr>"

definition net_up :: exo_net where
  "net_up = \<lparr>collection_connect = (\<lambda>n. True), collection_getMetadata = (\<lambda>n. None),
              vector_connect = (\<lambda>n. True)\<rparr>"

section \<open>findAndReplaceAll\<close>

text \<open>
  \<open>data.replace(pos, len, str)\<close> puts \<open>str\<close> in the place of the \<open>len\<close> characters from
  \<open>pos\<close> on. The loop of \<open>findAndReplaceAll\<close> runs while the last search found a position;
  with an empty \<open>toSearch\<close> every search succeeds and the loop does not end, so the function
  is partial: \<open>None\<close> is the run that does not return.
\<close>

definition str_replace :: "string \<Rightarrow> nat \<Rightarrow> nat \<Rightarrow> string \<Rightarrow> string" where
  "str_replace data pos len str = take pos data @ str @ drop (pos + len) data"

partial_function (option) findAndReplaceAll_loop ::
  "string \<Rightarrow> string \<Rightarrow> string \<Rightarrow> nat option \<Rightarrow> string option" where
  "findAndReplaceAll_loop toSearch replaceStr data pos =
     (if pos = None then Some data
      else findAndReplaceAll_loop toSearch replaceStr
             (str_replace data (the pos) (length toSearch) replaceStr)
             (str_find (str_replace data (the pos) (length toSearch) replaceStr) toSearch
                (the pos + length replaceStr)))"

definition findAndReplaceAll :: "string \<Rightarrow> string \<Rightarrow> string \<Rightarrow> string option" where
  "findAndReplaceAll data toSearch replaceStr =
     findAndReplaceAll_loop toSearch replaceStr data (str_find data toSearch 0)"

definition dash_to_underscore :: "string \<Rightarrow> string" where
  "dash_to_underscore s = map (\<lambda>x. if x = CHR ''-'' then CHR ''_'' else x) s"

section \<open>The acquisition tick (run)\<close>

text \<open>
  The names of the channels are the string constants of
  \<open>YarpRobotLoggerDeviceVariableTreeNames.h\<close>. The tick is modelled for any values of
  them: they are the fields of the parameter \<open>tree_names\<close>.

  Vectors are lists of reals; the tick only passes the values on and never computes
  with them. What the tick reads from outside is the record \<open>tick\<close>: the
  clock reading in seconds; for every getter of the sensor bridge the vector it fills
  its buffer with, or \<open>None\<close> when it returns false; the sensor lists; for every entry of
  \<open>m_vectorsCollectionSignals\<close>, in order, its \<open>signalName\<close> and what \<open>readData(false)\<close>
  returns (\<open>None\<close> for the null pointer); and the answers of the text-logging port: the
  first value of \<open>getPendingReads\<close>, then for each turn of the loop the message that
  \<open>read(false)\<close> yields, already deserialized (\<open>None\<close> for the null pointer), and the next
  value of \<open>getPendingReads\<close>. After the listed answers the port has nothing more to
  read. Of a text-logging entry only the fields that \<open>run\<close> reads are kept.

  The calls made on the buffer manager and on the real-time server are recorded as
  events, in the order of the calls.
\<close>

type_synonym vec = "real list"

record tree_names =
  TREE_DELIM :: string
  ROBOT_RT_ROOT_NAME :: string
  TIMESTAMPS_NAME :: string
  JOINT_STATE_POSITIONS_NAME :: string
  JOINT_STATE_VELOCITIES_NAME :: string
  JOINT_STATE_ACCLERATIONS_NAME :: string
  JOINT_STATE_TORQUES_NAME :: string
  MOTOR_STATE_POSITIONS_NAME :: string
  MOTOR_STATE_VELOCITIES_NAME :: string
  MOTOR_STATE_ACCELERATIONS_NAME :: string
  MOTOR_STATE_CURRENTS_NAME :: string
  MOTOR_STATE_PWM_NAME :: string
  MOTOR_STATE_PIDS_NAME :: string
  FTS_NAME :: string
  TEMPERATURE_NAME :: string
  GYROS_NAME :: string
  ACCELEROMETERS_NAME :: string
  ORIENTATIONS_NAME :: string
  MAGNETOMETERS_NAME :: string
  CARTESIAN_WRENCHES_NAME :: string

record TextLoggingEntry =
  isValid :: bool
  portSystem :: string
  portPrefix :: string
  processName :: string
  processPID :: string

datatype event =
    ClearData
  | PopulateData string vec
  | PushBack vec real string
  | AddChannel string
  | SendData

record device =
  m_streamJointStates :: bool
  m_streamMotorStates :: bool
  m_streamMotorPWM :: bool
  m_streamPIDs :: bool
  m_streamFTSensors :: bool
  m_streamTemperatureSensors :: bool
  m_streamInertials :: bool
  m_streamCartesianWrenches :: bool
  m_textLogsStoredInManager :: "string set"

record tick =
  advance :: bool
  clock_now :: real
  getJointPositions :: "vec option"
  getJointVelocities :: "vec option"
  getJointAccelerations :: "vec option"
  getJointTorques :: "vec option"
  getMotorPositions :: "vec option"
  getMotorVelocities :: "vec option"
  getMotorAccelerations :: "vec option"
  getMotorCurrents :: "vec option"
  getMotorPWMs :: "vec option"
  getPidPositions :: "vec option"
  getSixAxisForceTorqueSensorsList :: "string list"
  getSixAxisForceTorqueMeasurement :: "string \<Rightarrow> vec option"
  getTemperatureSensorsList :: "string list"
  getTemperature :: "string \<Rightarrow> real option"
  getGyroscopesList :: "string list"
  getGyroscopeMeasure :: "string \<Rightarrow> vec option"
  getLinearAccelerometersList :: "string list"
  getLinearAccelerometerMeasurement :: "string \<Rightarrow> vec option"
  getOrientationSensorsList :: "string list"
  getOrientationSensorMeasurement :: "string \<Rightarrow> vec option"
  getMagnetometersList :: "string list"
  getMagnetometerMeasurement :: "string \<Rightarrow> vec option"
  getIMUsList :: "string list"
  getIMUMeasurement :: "string \<Rightarrow> vec option"
  getCartesianWrenchesList :: "string list"
  getCartesianWrench :: "string \<Rightarrow> vec option"
  collections_readData :: "(string \<times> (string \<times> vec) list option) list"
  getPendingReads :: int
  text_reads :: "(TextLoggingEntry option \<times> int) list"

text \<open>
  The pattern of every stream: when the getter has succeeded, \<open>push_back\<close> under the
  channel name, then \<open>populateData\<close> under the real-time name. Both names are given by
  the caller, as each block of \<open>run\<close> writes them.
\<close>

definition log_and_publish :: "vec option \<Rightarrow> real \<Rightarrow> string \<Rightarrow> string \<Rightarrow> event list" where
  "log_and_publish buffer t signalName rtSignalName =
     (case buffer of
        None \<Rightarrow> []
      | Some b \<Rightarrow> [PushBack b t signalName, PopulateData rtSignalName b])"

definition run_jointStates :: "tree_names \<Rightarrow> device \<Rightarrow> tick \<Rightarrow> real \<Rightarrow> event list" where
  "run_jointStates N d env t =
     (if m_streamJointStates d then
        log_and_publish (getJointPositions env) t (JOINT_STATE_POSITIONS_NAME N)
          (ROBOT_RT_ROOT_NAME N @ TREE_DELIM N @ JOINT_STATE_POSITIONS_NAME N)
        @ log_and_publish (getJointVelocities env) t (JOINT_STATE_VELOCITIES_NAME N)
          (ROBOT_RT_ROOT_NAME N @ TREE_DELIM N @ JOINT_STATE_VELOCITIES_NAME N)
        @ log_and_publish (getJointAccelerations env) t (JOINT_STATE_ACCLERATIONS_NAME N)
          (ROBOT_RT_ROOT_NAME N @ TREE_DELIM N @ JOINT_STATE_ACCLERATIONS_NAME N)
        @ log_and_publish (getJointTorques env) t (JOINT_STATE_TORQUES_NAME N)
          (ROBOT_RT_ROOT_NAME N @ TREE_DELIM N @ JOINT_STATE_TORQUES_NAME N)
      else [])"

definition run_motorStates :: "tree_names \<Rightarrow> device \<Rightarrow> tick \<Rightarrow> real \<Rightarrow> event list" where
  "run_motorStates N d env t =
     (if m_streamMotorStates d then
        log_and_publish (getMotorPositions env) t (MOTOR_STATE_POSITIONS_NAME N)
          (ROBOT_RT_ROOT_NAME N @ TREE_DELIM N @ MOTOR_STATE_POSITIONS_NAME N)
        @ log_and_publish (getMotorVelocities env) t (MOTOR_STATE_VELOCITIES_NAME N)
          (ROBOT_RT_ROOT_NAME N @ TREE_DELIM N @ MOTOR_STATE_VELOCITIES_NAME N)
        @ log_and_publish (getMotorAccelerations env) t (MOTOR_STATE_ACCELERATIONS_NAME N)
          (ROBOT_RT_ROOT_NAME N @ TREE_DELIM N @ MOTOR_STATE_ACCELERATIONS_NAME N)
        @ log_and_publish (getMotorCurrents env) t (MOTOR_STATE_CURRENTS_NAME N)
          (ROBOT_RT_ROOT_NAME N @ TREE_DELIM N @ MOTOR_STATE_CURRENTS_NAME N)
      else [])"

definition run_motorPWM :: "tree_names \<Rightarrow> device \<Rightarrow> tick \<Rightarrow> real \<Rightarrow> event list" where
  "run_motorPWM N d env t =
     (if m_streamMotorPWM d then
        log_and_publish (getMotorPWMs env) t (MOTOR_STATE_PWM_NAME N)
          (ROBOT_RT_ROOT_NAME N @ TREE_DELIM N @ MOTOR_STATE_CURRENTS_NAME N)
      else [])"

definition run_PIDs :: "tree_names \<Rightarrow> device \<Rightarrow> tick \<Rightarrow> real \<Rightarrow> event list" where
  "run_PIDs N d env t =
     (if m_streamPIDs d then
        log_and_publish (getPidPositions env) t (MOTOR_STATE_PIDS_NAME N)
          (ROBOT_RT_ROOT_NAME N @ TREE_DELIM N @ MOTOR_STATE_PIDS_NAME N)
      else [])"

definition for_each_sensor ::
  "tree_names \<Rightarrow> string \<Rightarrow> string list \<Rightarrow> (string \<Rightarrow> vec option) \<Rightarrow> real \<Rightarrow> event list" where
  "for_each_sensor N groupName sensors getMeasure t =
     concat (map (\<lambda>sensorName.
        log_and_publish (getMeasure sensorName) t (groupName @ TREE_DELIM N @ sensorName)
          (ROBOT_RT_ROOT_NAME N @ TREE_DELIM N @ groupName @ TREE_DELIM N @ sensorName)) sensors)"

definition run_FTSensors :: "tree_names \<Rightarrow> device \<Rightarrow> tick \<Rightarrow> real \<Rightarrow> event list" where
  "run_FTSensors N d env t =
     (if m_streamFTSensors d then
        for_each_sensor N (FTS_NAME N) (getSixAxisForceTorqueSensorsList env)
          (getSixAxisForceTorqueMeasurement env) t
      else [])"

definition run_temperatureSensors :: "tree_names \<Rightarrow> device \<Rightarrow> tick \<Rightarrow> real \<Rightarrow> event list" where
  "run_temperatureSensors N d env t =
     (if m_streamTemperatureSensors d then
        for_each_sensor N (TEMPERATURE_NAME N) (getTemperatureSensorsList env)
          (\<lambda>sensorName. map_option (\<lambda>x. [x]) (getTemperature env sensorName)) t
      else [])"

definition run_inertials :: "tree_names \<Rightarrow> device \<Rightarrow> tick \<Rightarrow> real \<Rightarrow> event list" where
  "run_inertials N d env t =
     (if m_streamInertials d then
        for_each_sensor N (GYROS_NAME N) (getGyroscopesList env) (getGyroscopeMeasure env) t
        @ for_each_sensor N (ACCELEROMETERS_NAME N) (getLinearAccelerometersList env)
            (getLinearAccelerometerMeasurement env) t
        @ for_each_sensor N (ORIENTATIONS_NAME N) (getOrientationSensorsList env)
            (getOrientationSensorMeasurement env) t
        @ for_each_sensor N (MAGNETOMETERS_NAME N) (getMagnetometersList env)
            (getMagnetometerMeasurement env) t
      else [])"

text \<open>\<open>unpackIMU\<close>: orientation, accelerometer and gyro are the segments of length 3 at 0, 3 and 6.\<close>

definition segment3 :: "nat \<Rightarrow> vec \<Rightarrow> vec" where
  "segment3 start signal = take 3 (drop start signal)"

definition run_IMUs :: "tree_names \<Rightarrow> tick \<Rightarrow> real \<Rightarrow> event list" where
  "run_IMUs N env t =
     concat (map (\<lambda>sensorName.
        (case getIMUMeasurement env sensorName of
           None \<Rightarrow> []
         | Some signal \<Rightarrow>
             (let orientation = segment3 0 signal;
                  accelerometer = segment3 3 signal;
                  gyro = segment3 6 signal
              in log_and_publish (Some accelerometer) t
                   (ACCELEROMETERS_NAME N @ TREE_DELIM N @ sensorName)
                   (ROBOT_RT_ROOT_NAME N @ TREE_DELIM N @ ACCELEROMETERS_NAME N @ TREE_DELIM N
                      @ sensorName)
                 @ log_and_publish (Some gyro) t
                   (GYROS_NAME N @ TREE_DELIM N @ sensorName)
                   (ROBOT_RT_ROOT_NAME N @ TREE_DELIM N @ GYROS_NAME N @ TREE_DELIM N
                      @ sensorName)
                 @ log_and_publish (Some orientation) t
                   (ORIENTATIONS_NAME N @ TREE_DELIM N @ sensorName)
                   (ROBOT_RT_ROOT_NAME N @ TREE_DELIM N @ ORIENTATIONS_NAME N @ TREE_DELIM N
                      @ sensorName))))
        (getIMUsList env))"

definition run_cartesianWrenches :: "tree_names \<Rightarrow> device \<Rightarrow> tick \<Rightarrow> real \<Rightarrow> event list" where
  "run_cartesianWrenches N d env t =
     (if m_streamCartesianWrenches d then
        for_each_sensor N (CARTESIAN_WRENCHES_NAME N) (getCartesianWrenchesList env)
          (getCartesianWrench env) t
      else [])"

definition run_vectorsCollections :: "tree_names \<Rightarrow> tick \<Rightarrow> real \<Rightarrow> event list" where
  "run_vectorsCollections N env t =
     concat (map (\<lambda>(collectionName, externalSignalCollection).
        (case externalSignalCollection of
           None \<Rightarrow> []
         | Some vectors \<Rightarrow>
             concat (map (\<lambda>(key, vector).
                log_and_publish (Some vector) t (collectionName @ TREE_DELIM N @ key)
                  (ROBOT_RT_ROOT_NAME N @ TREE_DELIM N @ (collectionName @ TREE_DELIM N @ key)))
                vectors)))
        (collections_readData env))"

definition text_signal_name :: "TextLoggingEntry \<Rightarrow> string" where
  "text_signal_name msg =
     portSystem msg @ ''::'' @ portPrefix msg @ ''::'' @ processName msg @ ''::p''
       @ processPID msg"

fun run_textLogs ::
  "int \<Rightarrow> (TextLoggingEntry option \<times> int) list \<Rightarrow> string set \<Rightarrow> (string set \<times> event list) option" where
  "run_textLogs bufferportSize [] stored = Some (stored, [])"
| "run_textLogs bufferportSize ((b, pending) # reads) stored =
     (if bufferportSize > 0 then
        (case b of
           None \<Rightarrow> Some (stored, [])
         | Some msg \<Rightarrow>
             if isValid msg then
               (case findAndReplaceAll (text_signal_name msg) ''-'' ''_'' of
                  None \<Rightarrow> None
                | Some signalName \<Rightarrow>
                    if signalName \<notin> stored
                    then map_option (\<lambda>(stored', evs). (stored', AddChannel signalName # evs))
                           (run_textLogs pending reads (insert signalName stored))
                    else run_textLogs pending reads stored)
             else run_textLogs pending reads stored)
      else Some (stored, []))"

definition run :: "tree_names \<Rightarrow> device \<Rightarrow> tick \<Rightarrow> (device \<times> event list) option" where
  "run N d env =
     (let t = clock_now env
      in case run_textLogs (getPendingReads env) (text_reads env) (m_textLogsStoredInManager d) of
           None \<Rightarrow> None
         | Some (stored, text_events) \<Rightarrow>
             Some (d\<lparr>m_textLogsStoredInManager := stored\<rparr>,
                   [ClearData]
                   @ [PopulateData (ROBOT_RT_ROOT_NAME N @ TREE_DELIM N @ TIMESTAMPS_NAME N) [t]]
                   @ run_jointStates N d env t
                   @ run_motorStates N d env t
                   @ run_motorPWM N d env t
                   @ run_PIDs N d env t
                   @ run_FTSensors N d env t
                   @ run_temperatureSensors N d env t
                   @ run_inertials N d env t
                   @ run_IMUs N env t
                   @ run_cartesianWrenches N d env t
                   @ run_vectorsCollections N env t
                   @ text_events
                   @ [SendData]))"

text \<open>Successive ticks of one session.\<close>

fun run_ticks :: "tree_names \<Rightarrow> device \<Rightarrow> tick list \<Rightarrow> (device \<times> event list) option" where
  "run_ticks N d [] = Some (d, [])"
| "run_ticks N d (env # envs) =
     (case run N d env of
        None \<Rightarrow> None
      | Some (d1, evs1) \<Rightarrow>
          (case run_ticks N d1 envs of
             None \<Rightarrow> None
           | Some (d2, evs2) \<Rightarrow> Some (d2, evs1 @ evs2)))"

fun added_channels :: "event list \<Rightarrow> string list" where
  "added_channels [] = []"
| "added_channels (AddChannel name # evs) = name # added_channels evs"
| "added_channels (_ # evs) = added_channels evs"








text \<open>The valid messages among the answers of the port, and the names they give.\<close>

fun valid_msgs :: "(TextLoggingEntry option \<times> int) list \<Rightarrow> TextLoggingEntry list" where
  "valid_msgs [] = []"
| "valid_msgs ((None, pending) # reads) = valid_msgs reads"
| "valid_msgs ((Some msg, pending) # reads) =
     (if isValid msg then msg # valid_msgs reads else valid_msgs reads)"

definition session_names :: "tick list \<Rightarrow> string set" where
  "session_names envs =
     (\<lambda>m. dash_to_underscore (text_signal_name m))
       ` set (concat (map (\<lambda>env. valid_msgs (text_reads env)) envs))"

text \<open>Events of the data streams: neither a flush nor a new channel.\<close>

definition only_data :: "event list \<Rightarrow> bool" where
  "only_data evs = (SendData \<notin> set evs \<and> added_channels evs = [])"

text \<open>What the drain of the text-log port does.\<close>

definition text_drain_ok ::
  "string set \<Rightarrow> (TextLoggingEntry option \<times> int) list \<Rightarrow> string set \<Rightarrow> event list \<Rightarrow> bool" where
  "text_drain_ok stored reads stored' evs =
     (SendData \<notin> set evs \<and>
      distinct (added_channels evs) \<and>
      set (added_channels evs) \<inter> stored = {} \<and>
      stored' = stored \<union> set (added_channels evs) \<and>
      set (added_channels evs) \<subseteq> (\<lambda>m. dash_to_underscore (text_signal_name m)) ` set (valid_msgs reads))"

text \<open>
  An assignment of names, a device that streams the motor PWM only, and a tick in which
  only the PWM getter succeeds.
\<close>

definition example_names :: tree_names where
  "example_names =
     \<lparr>TREE_DELIM = ''::'', ROBOT_RT_ROOT_NAME = ''robot_realtime'',
      TIMESTAMPS_NAME = ''timestamps'',
      JOINT_STATE_POSITIONS_NAME = ''joints_state::positions'',
      JOINT_STATE_VELOCITIES_NAME = ''joints_state::velocities'',
      JOINT_STATE_ACCLERATIONS_NAME = ''joints_state::accelerations'',
      JOINT_STATE_TORQUES_NAME = ''joints_state::torques'',
      MOTOR_STATE_POSITIONS_NAME = ''motors_state::positions'',
      MOTOR_STATE_VELOCITIES_NAME = ''motors_state::velocities'',
      MOTOR_STATE_ACCELERATIONS_NAME = ''motors_state::accelerations'',
      MOTOR_STATE_CURRENTS_NAME = ''motors_state::currents'',
      MOTOR_STATE_PWM_NAME = ''motors_state::PWM'',
      MOTOR_STATE_PIDS_NAME = ''PIDs'',
      FTS_NAME = ''FTs'',
      TEMPERATURE_NAME = ''temperatures'',
      GYROS_NAME = ''gyros'',
      ACCELEROMETERS_NAME = ''accelerometers'',
      ORIENTATIONS_NAME = ''orientations'',
      MAGNETOMETERS_NAME = ''magnetometers'',
      CARTESIAN_WRENCHES_NAME = ''cartesian_wrenches''\<rparr>"

definition pwm_only_device :: device where
  "pwm_only_device =
     \<lparr>m_streamJointStates = False, m_streamMotorStates = False, m_streamMotorPWM = True,
      m_streamPIDs = False, m_streamFTSensors = False, m_streamTemperatureSensors = False,
      m_streamInertials = False, m_streamCartesianWrenches = False,
      m_textLogsStoredInManager = {}\<rparr>"

definition pwm_tick :: tick where
  "pwm_tick =
     \<lparr>advance = True, clock_now = 0,
      getJointPositions = None, getJointVelocities = None, getJointAccelerations = None,
      getJointTorques = None, getMotorPositions = None, getMotorVelocities = None,
      getMotorAccelerations = None, getMotorCurrents = None, getMotorPWMs = Some [1 / 2],
      getPidPositions = None,
      getSixAxisForceTorqueSensorsList = [], getSixAxisForceTorqueMeasurement = (\<lambda>n. None),
      getTemperatureSensorsList = [], getTemperature = (\<lambda>n. None),
      getGyroscopesList = [], getGyroscopeMeasure = (\<lambda>n. None),
      getLinearAccelerometersList = [], getLinearAccelerometerMeasurement = (\<lambda>n. None),
      getOrientationSensorsList = [], getOrientationSensorMeasurement = (\<lambda>n. None),
      getMagnetometersList = [], getMagnetometerMeasurement = (\<lambda>n. None),
      getIMUsList = [], getIMUMeasurement = (\<lambda>n. None),
      getCartesianWrenchesList = [], getCartesianWrench = (\<lambda>n. None),
      collections_readData = [], getPendingReads = 0, text_reads = []\<rparr>"

section \<open>The save callback (saveCallback)\<close>

text \<open>
  \<open>m_videoWriters\<close> maps a camera name to its writers; \<open>rgb\<close> and \<open>depth\<close> are shared
  pointers to image savers, \<open>None\<close> for the null pointer. \<open>m_videoWriters[camera]\<close>
  inserts an entry with two null pointers when the camera has none (\<open>at_camera\<close>).

  The file system answers through \<open>file_system\<close>: whether \<open>std::filesystem::rename\<close> and
  \<open>create_directory\<close> succeed (they throw otherwise, and nothing in the callback catches
  the exception), and the image dimensions the camera bridge knows. The callback ends
  either by returning a boolean or with the exception (\<open>Threw\<close>). Every function below
  gives the way it ends, the writers after it and the events it caused; for a step
  inside the callback \<open>Returned True\<close> means that the callback goes on.
\<close>

datatype SaveMode = Video | Frame

datatype SaveCallbackSaveMethod = periodic | last_call

record ImageSaver =
  saveMode :: SaveMode
  writer_open :: bool
  framesPath :: string

record VideoWriter =
  rgb :: "ImageSaver option"
  depth :: "ImageSaver option"

datatype save_event =
    ReleaseWriter string string
  | Rename string string
  | OpenVideoWriter string
  | CreateDirectory string
  | CodeStatus string

datatype outcome = Returned bool | Threw

record file_system =
  rename_ok :: "string \<Rightarrow> string \<Rightarrow> bool"
  create_directory_ok :: "string \<Rightarrow> bool"
  rgbImgDimensions :: "string \<rightharpoonup> nat \<times> nat"
  rgbdImgDimensions :: "string \<rightharpoonup> nat \<times> nat"

type_synonym video_writers = "string \<rightharpoonup> VideoWriter"

datatype image_kind = Rgb | Depth

definition kind_name :: "image_kind \<Rightarrow> string" where
  "kind_name k = (case k of Rgb \<Rightarrow> ''rgb'' | Depth \<Rightarrow> ''depth'')"

definition at_camera :: "video_writers \<Rightarrow> string \<Rightarrow> video_writers" where
  "at_camera m camera =
     (case m camera of None \<Rightarrow> m(camera \<mapsto> \<lparr>rgb = None, depth = None\<rparr>) | Some w \<Rightarrow> m)"

definition saver_of :: "video_writers \<Rightarrow> string \<Rightarrow> image_kind \<Rightarrow> ImageSaver option" where
  "saver_of m camera k =
     (case m camera of
        None \<Rightarrow> None
      | Some w \<Rightarrow> (case k of Rgb \<Rightarrow> rgb w | Depth \<Rightarrow> depth w))"

definition set_saver :: "video_writers \<Rightarrow> string \<Rightarrow> image_kind \<Rightarrow> ImageSaver \<Rightarrow> video_writers" where
  "set_saver m camera k s =
     (case m camera of
        None \<Rightarrow> m
      | Some w \<Rightarrow>
          m(camera \<mapsto> (case k of Rgb \<Rightarrow> w\<lparr>rgb := Some s\<rparr> | Depth \<Rightarrow> w\<lparr>depth := Some s\<rparr>)))"

definition saveVideo ::
  "file_system \<Rightarrow> string \<Rightarrow> video_writers \<Rightarrow> string \<Rightarrow> image_kind
     \<Rightarrow> outcome \<times> video_writers \<times> save_event list" where
  "saveVideo fs fileName m camera k =
     (case saver_of m camera k of
        None \<Rightarrow> (Returned False, m, [])
      | Some imageSaver \<Rightarrow>
          (let temp = fileName @ ''_'' @ camera @ ''_'' @ kind_name k;
               oldName = ''output_'' @ camera @ ''_'' @ kind_name k;
               isVideo = (saveMode imageSaver = Video);
               temp = (if isVideo then temp @ ''.mp4'' else temp);
               oldName = (if isVideo then oldName @ ''.mp4'' else oldName);
               m1 = (if isVideo then set_saver m camera k (imageSaver\<lparr>writer_open := False\<rparr>)
                     else m);
               evs = (if isVideo then [ReleaseWriter camera (kind_name k)] else [])
           in if rename_ok fs oldName temp
              then (Returned True, m1, evs @ [Rename oldName temp])
              else (Threw, m1, evs)))"

definition openVideoWriter ::
  "video_writers \<Rightarrow> string \<Rightarrow> image_kind \<Rightarrow> (string \<rightharpoonup> nat \<times> nat)
     \<Rightarrow> outcome \<times> video_writers \<times> save_event list" where
  "openVideoWriter m camera k imgDimensions =
     (case saver_of m camera k of
        None \<Rightarrow> (Returned False, m, [])
      | Some imageSaver \<Rightarrow>
          if imgDimensions camera = None \<or> m camera = None then (Returned False, m, [])
          else (Returned True, set_saver m camera k (imageSaver\<lparr>writer_open := True\<rparr>),
                [OpenVideoWriter (''output_'' @ camera @ ''_'' @ kind_name k @ ''.mp4'')]))"

definition createFramesFolder ::
  "file_system \<Rightarrow> video_writers \<Rightarrow> string \<Rightarrow> image_kind
     \<Rightarrow> outcome \<times> video_writers \<times> save_event list" where
  "createFramesFolder fs m camera k =
     (case saver_of m camera k of
        None \<Rightarrow> (Returned False, m, [])
      | Some imageSaver \<Rightarrow>
          (let path = ''output_'' @ camera @ ''_'' @ kind_name k;
               m1 = set_saver m camera k (imageSaver\<lparr>framesPath := path\<rparr>)
           in if create_directory_ok fs path then (Returned True, m1, [CreateDirectory path])
              else (Threw, m1, [])))"

text \<open>
  The reopening of one stream after a periodic save, by the save mode of the image saver.
  The saver was dereferenced by the preceding \<open>saveVideo\<close>, which returned true, so it is
  not null here.
\<close>

definition reopen ::
  "file_system \<Rightarrow> video_writers \<Rightarrow> string \<Rightarrow> image_kind \<Rightarrow> (string \<rightharpoonup> nat \<times> nat)
     \<Rightarrow> outcome \<times> video_writers \<times> save_event list" where
  "reopen fs m camera k imgDimensions =
     (case saver_of m camera k of
        None \<Rightarrow> (Threw, m, [])
      | Some imageSaver \<Rightarrow>
          if saveMode imageSaver = Video then openVideoWriter m camera k imgDimensions
          else createFramesFolder fs m camera k)"

text \<open>Sequencing of steps: a step that does not return true ends the callback.\<close>

definition and_then ::
  "outcome \<times> video_writers \<times> save_event list
     \<Rightarrow> (video_writers \<Rightarrow> outcome \<times> video_writers \<times> save_event list)
     \<Rightarrow> outcome \<times> video_writers \<times> save_event list" where
  "and_then r next_step =
     (case r of
        (Returned True, m, evs) \<Rightarrow>
          (case next_step m of (out, m', evs') \<Rightarrow> (out, m', evs @ evs'))
      | (out, m, evs) \<Rightarrow> (out, m, evs))"

definition save_rgb_camera ::
  "file_system \<Rightarrow> string \<Rightarrow> SaveCallbackSaveMethod \<Rightarrow> string \<Rightarrow> video_writers
     \<Rightarrow> outcome \<times> video_writers \<times> save_event list" where
  "save_rgb_camera fs fileName method camera m =
     and_then (saveVideo fs fileName (at_camera m camera) camera Rgb)
       (\<lambda>m1. if method \<noteq> periodic then (Returned True, m1, [])
              else reopen fs m1 camera Rgb (rgbImgDimensions fs))"

definition save_rgbd_camera ::
  "file_system \<Rightarrow> string \<Rightarrow> SaveCallbackSaveMethod \<Rightarrow> string \<Rightarrow> video_writers
     \<Rightarrow> outcome \<times> video_writers \<times> save_event list" where
  "save_rgbd_camera fs fileName method camera m =
     and_then (saveVideo fs fileName (at_camera m camera) camera Rgb)
       (\<lambda>m1. and_then (saveVideo fs fileName m1 camera Depth)
          (\<lambda>m2. if method \<noteq> periodic then (Returned True, m2, [])
                 else and_then (reopen fs m2 camera Rgb (rgbdImgDimensions fs))
                        (\<lambda>m3. reopen fs m3 camera Depth (rgbdImgDimensions fs))))"

fun for_each_camera ::
  "(string \<Rightarrow> video_writers \<Rightarrow> outcome \<times> video_writers \<times> save_event list)
     \<Rightarrow> string list \<Rightarrow> video_writers \<Rightarrow> outcome \<times> video_writers \<times> save_event list" where
  "for_each_camera body [] m = (Returned True, m, [])"
| "for_each_camera body (camera # cameras) m =
     and_then (body camera m) (for_each_camera body cameras)"

definition saveCallback ::
  "file_system \<Rightarrow> string list \<Rightarrow> string list \<Rightarrow> string \<Rightarrow> SaveCallbackSaveMethod
     \<Rightarrow> video_writers \<Rightarrow> outcome \<times> video_writers \<times> save_event list" where
  "saveCallback fs m_rgbCamerasList m_rgbdCamerasList fileName method m =
     and_then (for_each_camera (save_rgb_camera fs fileName method) m_rgbCamerasList m)
       (\<lambda>m1. and_then (for_each_camera (save_rgbd_camera fs fileName method) m_rgbdCamerasList m1)
          (\<lambda>m2. (Returned True, m2, [CodeStatus (fileName @ ''.md'')])))"

text \<open>The renames made, and concrete cameras and file systems.\<close>

fun renames :: "save_event list \<Rightarrow> (string \<times> string) list" where
  "renames [] = []"
| "renames (Rename old new # evs) = (old, new) # renames evs"
| "renames (_ # evs) = renames evs"

definition fs_rename_fails :: "string \<Rightarrow> file_system" where
  "fs_rename_fails name =
     \<lparr>rename_ok = (\<lambda>old new. old \<noteq> name), create_directory_ok = (\<lambda>p. True),
      rgbImgDimensions = (\<lambda>c. Some (640, 480)), rgbdImgDimensions = (\<lambda>c. Some (640, 480))\<rparr>"

definition video_rgb_writer :: VideoWriter where
  "video_rgb_writer =
     \<lparr>rgb = Some \<lparr>saveMode = Video, writer_open = True, framesPath = []\<rparr>, depth = None\<rparr>"

definition two_cameras :: video_writers where
  "two_cameras = [''cam0'' \<mapsto> video_rgb_writer, ''cam1'' \<mapsto> video_rgb_writer]"

definition first_null :: video_writers where
  "first_null = [''cam0'' \<mapsto> \<lparr>rgb = None, depth = None\<rparr>, ''cam1'' \<mapsto> video_rgb_writer]"

section \<open>Telemetry buffer capacity (setupTelemetry)\<close>

text \<open>
  \<open>setupTelemetry\<close> computes \<open>n_samples\<close> in double precision. A double is modelled by the
  rational number it stands for, and an operation by the exact operation followed by
  the rounding of IEEE 754 binary64 in its default mode: to the nearest representable
  number, ties to the one with an even significand. \<open>exponent x\<close> is the binary exponent
  of \<open>x\<close> (the \<open>e\<close> with \<open>2^e \<le> |x| < 2^(e+1)\<close>); the spacing of the doubles around \<open>x\<close> is
  \<open>2^(e-52)\<close>, and \<open>2^(-1074)\<close> in the subnormal range. \<open>None\<close> stands for a result that
  is no number (an overflow to infinity), and in \<open>setupTelemetry_n_samples\<close> also for
  the division by zero and for a value that \<open>static_cast<int>\<close> cannot convert, whose
  behaviour is undefined.
\<close>

function expo_up :: "rat \<Rightarrow> int" where
  "expo_up x = (if 2 \<le> x then 1 + expo_up (x / 2) else 0)"
  by pat_completeness auto
termination
proof (relation "measure (\<lambda>x. nat \<lfloor>x\<rfloor>)")
  show "wf (measure (\<lambda>x::rat. nat \<lfloor>x\<rfloor>))" by simp
next
  fix x :: rat
  assume "2 \<le> x"
  then have "\<lfloor>x / 2\<rfloor> < \<lfloor>x\<rfloor>" and "0 < \<lfloor>x\<rfloor>"
    by linarith+
  then show "(x / 2, x) \<in> measure (\<lambda>x. nat \<lfloor>x\<rfloor>)" by simp
qed

function expo_down :: "rat \<Rightarrow> int" where
  "expo_down x = (if 0 < x \<and> x < 1 then expo_down (2 * x) - 1 else 0)"
  by pat_completeness auto
termination
proof (relation "measure (\<lambda>x. nat \<lceil>1 / x\<rceil>)")
  show "wf (measure (\<lambda>x::rat. nat \<lceil>1 / x\<rceil>))" by simp
next
  fix x :: rat
  assume a: "0 < x \<and> x < 1"
  then have one: "1 < 1 / x" by simp
  have half: "1 / (2 * x) = (1 / x) / 2" by simp
  define y where "y = 1 / x"
  have y: "1 < y" using one by (simp add: y_def)
  then have c2: "2 \<le> \<lceil>y\<rceil>" by linarith
  have "y / 2 \<le> of_int \<lceil>y\<rceil> / 2" by simp
  also have "\<dots> \<le> of_int (\<lceil>y\<rceil> - 1)" using c2 by simp
  finally have "\<lceil>y / 2\<rceil> \<le> \<lceil>y\<rceil> - 1" by (simp only: ceiling_le_iff)
  then have f1: "\<lceil>y / 2\<rceil> < \<lceil>y\<rceil>" using c2 by linarith
  have f2: "0 < \<lceil>y\<rceil>" using c2 by linarith
  have "nat \<lceil>(1 / x) / 2\<rceil> < nat \<lceil>1 / x\<rceil>"
    using f1 f2 unfolding y_def by linarith
  then show "(2 * x, x) \<in> measure (\<lambda>x. nat \<lceil>1 / x\<rceil>)"
    unfolding half in_measure .
qed

declare expo_up.simps [simp del] expo_down.simps [simp del]

definition exponent :: "rat \<Rightarrow> int" where
  "exponent x = (if 1 \<le> \<bar>x\<bar> then expo_up \<bar>x\<bar> else expo_down \<bar>x\<bar>)"

definition round_half_even :: "rat \<Rightarrow> int" where
  "round_half_even y =
     (let f = \<lfloor>y\<rfloor>; r = y - of_int f
      in if r < 1 / 2 then f else if 1 / 2 < r then f + 1 else if even f then f else f + 1)"

definition binary64 :: "rat \<Rightarrow> rat option" where
  "binary64 x =
     (let e = max (exponent x) (- 1022) - 52;
          y = of_int (round_half_even (x / 2 powi e)) * 2 powi e
      in if \<bar>y\<bar> < 2 ^ 1024 then Some y else None)"

text \<open>
  \<open>constexpr double percentage = 0.1;\<close>
  \<open>n_samples = static_cast<int>(std::ceil((1 + percentage) * (save_period / devicePeriod)))\<close>
\<close>

definition setupTelemetry_n_samples :: "rat \<Rightarrow> rat \<Rightarrow> int option" where
  "setupTelemetry_n_samples save_period devicePeriod =
     (if devicePeriod = 0 then None
      else
        (case binary64 (1 / 10) of None \<Rightarrow> None | Some percentage \<Rightarrow>
        (case binary64 (1 + percentage) of None \<Rightarrow> None | Some a \<Rightarrow>
        (case binary64 (save_period / devicePeriod) of None \<Rightarrow> None | Some q \<Rightarrow>
        (case binary64 (a * q) of None \<Rightarrow> None | Some v \<Rightarrow>
          if - (2 ^ 31) \<le> \<lceil>v\<rceil> \<and> \<lceil>v\<rceil> < 2 ^ 31 then Some \<lceil>v\<rceil> else None)))))"

text \<open>The doubles that the literals \<open>0.01\<close> and \<open>0.09999999999999999\<close> denote.\<close>

definition double_0_01 :: rat where
  "double_0_01 = 5764607523034235 / 2 ^ 59"

definition double_0_09999999999999999 :: rat where
  "double_0_09999999999999999 = 7205759403792793 / 2 ^ 56"

section \<open>Properties of the VariablesHandler\<close>

text \<open>
  C9. When the name is already registered, \<open>addVariable\<close> returns false and the handler is
  left as it was (the variable map and the number of variables are unchanged), whatever
  the requested size is, the size of the first registration included.
\<close>

theorem addVariable_duplicate_rejected:
  "m_variables h name \<noteq> None \<Longrightarrow>
     addVariable h name sz = (False, h) \<and>
     m_variables (snd (addVariable h name sz)) = m_variables h \<and>
     getNumberOfVariables (snd (addVariable h name sz)) = getNumberOfVariables h"
  by (simp add: addVariable_def)

theorem addVariable_duplicate_rejected_witness:
  "m_variables (snd (addVariable emptyHandler ''x'' 3)) ''x'' \<noteq> None \<and>
   addVariable (snd (addVariable emptyHandler ''x'' 3)) ''x'' 3
     = (False, snd (addVariable emptyHandler ''x'' 3)) \<and>
   getNumberOfVariables (snd (addVariable (snd (addVariable emptyHandler ''x'' 3)) ''x'' 3)) = 3"
proof -
  have h: "m_variables (snd (addVariable emptyHandler ''x'' 3)) ''x'' \<noteq> None"
    by (simp add: addVariable_def emptyHandler_def)
  have n: "getNumberOfVariables (snd (addVariable emptyHandler ''x'' 3)) = 3"
    by (simp add: addVariable_def emptyHandler_def getNumberOfVariables_def)
  show ?thesis
    using h n addVariable_duplicate_rejected [OF h, of 3] by simp
qed

section \<open>Properties of the periodic workers\<close>

lemma clock_reset_sint: "clock_reset t old \<longleftrightarrow> sint (t - old) \<le> 0"
proof
  assume "clock_reset t old"
  then have lt: "real_of_int (sint (t - old)) < 1 / 10 ^ 12"
    by (simp add: clock_reset_def)
  have "(1::real) / 10 ^ 12 < 1" by simp
  with lt have "real_of_int (sint (t - old)) < 1" by linarith
  then have "sint (t - old) < 1" by linarith
  then show "sint (t - old) \<le> 0" by simp
next
  assume "sint (t - old) \<le> 0"
  then have "real_of_int (sint (t - old)) \<le> 0" by (simp only: of_int_le_0_iff)
  moreover have "(0::real) < 1 / 10 ^ 12" by simp
  ultimately show "clock_reset t old"
    unfolding clock_reset_def by linarith
qed

lemma sint_sub_no_overflow:
  "no_overflow_sub a b \<Longrightarrow> sint (a - b) = sint a - sint b"
  unfolding no_overflow_sub_def
  by (simp add: sint_word_ariths signed_take_bit_int_eq_self_iff)

lemma sint_add_no_overflow:
  "no_overflow_add a b \<Longrightarrow> sint (a + b) = sint a + sint b"
  unfolding no_overflow_add_def
  by (simp add: sint_word_ariths signed_take_bit_int_eq_self_iff)

lemma clock_reset_iff:
  "no_overflow_sub t old \<Longrightarrow> clock_reset t old \<longleftrightarrow> sint t \<le> sint old"
  by (simp add: clock_reset_sint sint_sub_no_overflow)

lemma wake_cycle_fields:
  "oldTime (wake_cycle p s now) = time s"
  "time (wake_cycle p s now) = now"
  "wakeUpTime (wake_cycle p s now)
     = (if clock_reset now (time s) then now + p else wakeUpTime s + p)"
  by (simp_all add: wake_cycle_def Let_def)

text \<open>
  The sums wrap: a log-discovery worker started \<open>11\<close> nanoseconds before the end of the
  range that reads a time \<open>3\<close> nanoseconds later gets a negative wake time.
\<close>

lemma wake_time_wraps:
  "sint (wakeUpTime (lookForNewLogs_wake (worker_clock_init (2 ^ 63 - 11)) (2 ^ 63 - 8)))
     = - 9223372034854775819"
  by (simp add: lookForNewLogs_wake_def wake_cycle_fields worker_clock_init_def clock_reset_sint)

text \<open>
  C3, as the code has it. When the difference of the new reading and the previous one
  fits in the signed 64-bit count, a clock reset is declared in each of the three workers
  exactly when the new reading is smaller than or equal to the previous one (the count of
  the difference is below \<open>1e-12\<close>, that is, not positive); the accumulator is then
  reseeded and the next wake time is the new reading plus the period. Otherwise the next
  wake time is the previous wake time plus the period. The sums are those of the 64-bit
  count; when the sum fits in 64 bits it is the sum of the signed values.
\<close>

theorem wake_time_reseeded_iff_not_advanced:
  assumes "no_overflow_sub now (time s)"
  shows "(clock_reset now (time s) \<longleftrightarrow> sint now \<le> sint (time s)) \<and>
   wakeUpTime (lookForExogenousSignals_wake s now)
     = (if sint now \<le> sint (time s) then now + 1000000000 else wakeUpTime s + 1000000000) \<and>
   wakeUpTime (lookForNewLogs_wake s now)
     = (if sint now \<le> sint (time s) then now + 2000000000 else wakeUpTime s + 2000000000) \<and>
   wakeUpTime (recordVideo_wake p s now)
     = (if sint now \<le> sint (time s) then now + p else wakeUpTime s + p) \<and>
   (no_overflow_add (if sint now \<le> sint (time s) then now else wakeUpTime s) p \<longrightarrow>
      sint (wakeUpTime (recordVideo_wake p s now))
        = (if sint now \<le> sint (time s) then sint now + sint p else sint (wakeUpTime s) + sint p))"
proof -
  note r = clock_reset_iff [OF assms]
  have w: "wakeUpTime (wake_cycle q s now)
      = (if sint now \<le> sint (time s) then now + q else wakeUpTime s + q)" for q
    by (simp add: wake_cycle_fields r)
  have "sint (wakeUpTime (wake_cycle p s now))
        = (if sint now \<le> sint (time s) then sint now + sint p else sint (wakeUpTime s) + sint p)"
    if "no_overflow_add (if sint now \<le> sint (time s) then now else wakeUpTime s) p"
    using that by (auto simp: w sint_add_no_overflow split: if_splits)
  then show ?thesis
    by (simp add: lookForExogenousSignals_wake_def lookForNewLogs_wake_def recordVideo_wake_def
        w r)
qed

theorem wake_time_reseeded_iff_not_advanced_witness:
  "no_overflow_sub 7 (time (worker_clock_init 5)) \<and>
   no_overflow_add (wakeUpTime (worker_clock_init 5)) 3 \<and>
   \<not> clock_reset 7 (time (worker_clock_init 5)) \<and>
   wakeUpTime (lookForNewLogs_wake (worker_clock_init 5) 7) = 2000000005 \<and>
   sint (wakeUpTime (recordVideo_wake 3 (worker_clock_init 5) 7)) = 8"
proof -
  have h: "no_overflow_sub 7 (time (worker_clock_init 5))"
    by (simp add: no_overflow_sub_def worker_clock_init_def)
  have a: "no_overflow_add (wakeUpTime (worker_clock_init 5)) 3"
    by (simp add: no_overflow_add_def worker_clock_init_def)
  note t = wake_time_reseeded_iff_not_advanced [OF h, of 3]
  have a': "no_overflow_add
      (if sint (7 :: 64 word) \<le> sint (time (worker_clock_init 5)) then 7
       else wakeUpTime (worker_clock_init 5)) 3"
    using a by (simp add: worker_clock_init_def)
  note c = mp [OF conjunct2 [OF conjunct2 [OF conjunct2 [OF conjunct2 [OF t]]]] a']
  show ?thesis
    using h a t c by (simp add: worker_clock_init_def)
qed

text \<open>
  C3 as stated fails when two consecutive readings are equal. A log-discovery worker
  started at reading 5 that reads 5 again in its first two cycles declares a reset in the
  second one although 5 is not smaller than 5, and its next wake time is the reading plus
  the period, not the previous wake time plus the period.
\<close>

theorem wake_time_equal_readings_counterexample:
  "clock_reset 5 (time (lookForNewLogs_wake (worker_clock_init 5) 5)) \<and>
   \<not> (sint (5 :: 64 word) < sint (time (lookForNewLogs_wake (worker_clock_init 5) 5))) \<and>
   wakeUpTime (lookForNewLogs_wake (lookForNewLogs_wake (worker_clock_init 5) 5) 5)
     = 5 + 2000000000 \<and>
   wakeUpTime (lookForNewLogs_wake (lookForNewLogs_wake (worker_clock_init 5) 5) 5)
     \<noteq> wakeUpTime (lookForNewLogs_wake (worker_clock_init 5) 5) + 2000000000"
  by (simp add: lookForNewLogs_wake_def wake_cycle_fields clock_reset_sint worker_clock_init_def)

section \<open>Properties of log discovery\<close>

lemma scan_port_calls_match: "calls_match_names d \<Longrightarrow> calls_match_names (scan_port d p)"
  by (auto simp: calls_match_names_def scan_port_def should_connect_def)

lemma scan_calls_match:
  "calls_match_names d \<Longrightarrow> calls_match_names (lookForNewLogs_scan d ps)"
  unfolding lookForNewLogs_scan_def
  by (induction ps arbitrary: d) (simp_all add: scan_port_calls_match)

lemma scans_calls_match:
  "calls_match_names d \<Longrightarrow> calls_match_names (lookForNewLogs_scans d ss)"
  unfolding lookForNewLogs_scans_def
  by (induction ss arbitrary: d) (simp_all add: scan_calls_match)

lemma init_calls_match: "calls_match_names (log_discovery_init subs)"
  by (simp add: calls_match_names_def log_discovery_init_def)

lemma extends_calls_refl: "extends_calls d d"
  by (simp add: extends_calls_def new_calls_def)

lemma extends_calls_scan_port: "extends_calls d (scan_port d p)"
  by (auto simp: extends_calls_def new_calls_def scan_port_def should_connect_def)

lemma extends_calls_trans:
  assumes "extends_calls a b" and "extends_calls b c"
  shows "extends_calls a c"
proof -
  obtain xs where b: "connect_calls b = connect_calls a @ xs"
    using assms(1) by (metis append_take_drop_id extends_calls_def)
  obtain ys where c: "connect_calls c = connect_calls b @ ys"
    using assms(2) by (metis append_take_drop_id extends_calls_def)
  have xs: "fst ` set xs \<inter> m_textLoggingPortNames a = {}"
    using assms(1) b by (simp add: extends_calls_def new_calls_def)
  have ys: "fst ` set ys \<inter> m_textLoggingPortNames b = {}"
    using assms(2) c by (simp add: extends_calls_def new_calls_def)
  have sub: "m_textLoggingPortNames a \<subseteq> m_textLoggingPortNames b"
    "m_textLoggingPortNames b \<subseteq> m_textLoggingPortNames c"
    using assms by (simp_all add: extends_calls_def)
  have "fst ` set (xs @ ys) \<inter> m_textLoggingPortNames a = {}"
    using xs ys sub(1) by auto
  then show ?thesis
    using b c sub by (simp add: extends_calls_def new_calls_def)
qed

lemma extends_calls_scan: "extends_calls d (lookForNewLogs_scan d ps)"
proof (induction ps arbitrary: d)
  case Nil
  show ?case by (simp add: lookForNewLogs_scan_def extends_calls_refl)
next
  case (Cons p ps)
  have "extends_calls (scan_port d p) (lookForNewLogs_scan (scan_port d p) ps)"
    by (rule Cons.IH)
  then show ?case
    using extends_calls_trans [OF extends_calls_scan_port]
    by (simp add: lookForNewLogs_scan_def)
qed

lemma extends_calls_scans: "extends_calls d (lookForNewLogs_scans d ss)"
proof (induction ss arbitrary: d)
  case Nil
  show ?case by (simp add: lookForNewLogs_scans_def extends_calls_refl)
next
  case (Cons ps ss)
  have "extends_calls (lookForNewLogs_scan d ps)
          (lookForNewLogs_scans (lookForNewLogs_scan d ps) ss)"
    by (rule Cons.IH)
  then show ?case
    using extends_calls_trans [OF extends_calls_scan]
    by (simp add: lookForNewLogs_scans_def)
qed

text \<open>
  C4. Over any sequence of scans of one session, \<open>connect\<close> is called at most once for a
  name: the names of the calls made since the start are pairwise distinct. And from any
  state of the worker, the calls that later scans add never concern a name that is
  already in the Text-Log Port Set.
\<close>

theorem connect_at_most_once:
  "distinct (map fst (connect_calls (lookForNewLogs_scans (log_discovery_init subs) scans))) \<and>
   take (length (connect_calls d)) (connect_calls (lookForNewLogs_scans d scans))
     = connect_calls d \<and>
   fst ` set (new_calls d (lookForNewLogs_scans d scans)) \<inter> m_textLoggingPortNames d = {}"
  using scans_calls_match [OF init_calls_match, of subs scans] extends_calls_scans [of d scans]
  by (simp add: calls_match_names_def extends_calls_def)

text \<open>
  C5, as the code has it. The name is inserted into the Text-Log Port Set before
  \<open>connect\<close> is called and the result of \<open>connect\<close> is not read: after any sequence of
  scans the set holds exactly the names for which a connection was attempted, whatever
  the attempt returned.
\<close>

theorem port_set_is_attempted_names:
  "m_textLoggingPortNames (lookForNewLogs_scans (log_discovery_init subs) scans)
     = fst ` set (connect_calls (lookForNewLogs_scans (log_discovery_init subs) scans))"
  using scans_calls_match [OF init_calls_match, of subs scans]
  by (simp add: calls_match_names_def)

text \<open>
  C5 as stated fails: a producer that exists and whose only connection attempt fails is
  in the set after the scan, and no successful connection was ever made for it.
\<close>

theorem failed_connect_still_in_set_counterexample:
  "''/log/a'' \<in> m_textLoggingPortNames
      (lookForNewLogs_scans (log_discovery_init [])
         [[\<lparr>port_name = ''/log/a'', net_exists = True, net_connect = False\<rparr>]]) \<and>
   connect_calls
      (lookForNewLogs_scans (log_discovery_init [])
         [[\<lparr>port_name = ''/log/a'', net_exists = True, net_connect = False\<rparr>]])
     = [(''/log/a'', False)]"
  by (simp add: lookForNewLogs_scans_def lookForNewLogs_scan_def scan_port_def
      should_connect_def log_discovery_init_def textLoggingPortPrefix_def)

section \<open>Properties of exogenous signal discovery\<close>

lemma for_each_Cons:
  "fst (for_each_signal body ((m, s) # tbl))
     = (m, fst (body m s)) # fst (for_each_signal body tbl)"
  "snd (for_each_signal body ((m, s) # tbl))
     = snd (body m s) @ snd (for_each_signal body tbl)"
  by (simp_all split: prod.splits)

lemma for_each_keys: "map fst (fst (for_each_signal body tbl)) = map fst tbl"
proof (induction tbl)
  case Nil
  show ?case by simp
next
  case (Cons a tbl)
  then show ?case by (cases a) (simp add: for_each_Cons del: for_each_signal.simps)
qed

lemma for_each_lookup:
  "map_of (fst (for_each_signal body tbl)) n = map_option (\<lambda>s. fst (body n s)) (map_of tbl n)"
proof (induction tbl)
  case Nil
  show ?case by simp
next
  case (Cons a tbl)
  then show ?case by (cases a) (simp add: for_each_Cons del: for_each_signal.simps)
qed

lemma for_each_events:
  assumes "distinct (map fst tbl)"
    and "\<And>m s. m \<noteq> n \<Longrightarrow> filter P (snd (body m s)) = []"
    and "\<And>s. filter P (snd (body n s)) = snd (body n s)"
  shows "filter P (snd (for_each_signal body tbl))
     = (case map_of tbl n of None \<Rightarrow> [] | Some s \<Rightarrow> snd (body n s))"
  using assms(1)
proof (induction tbl)
  case Nil
  show ?case by simp
next
  case (Cons a tbl)
  obtain m s where a: "a = (m, s)" by (cases a)
  show ?case
  proof (cases "m = n")
    case True
    with Cons.prems a have none: "map_of tbl n = None"
      by (simp add: map_of_eq_None_iff image_iff)
    from Cons.prems have "distinct (map fst tbl)" by simp
    then have "filter P (snd (for_each_signal body tbl)) = []"
      using Cons.IH none by simp
    with a True assms(3) [of s] show ?thesis
      by (simp add: for_each_Cons del: for_each_signal.simps)
  next
    case False
    from Cons.prems have "distinct (map fst tbl)" by simp
    with Cons.IH have "filter P (snd (for_each_signal body tbl))
       = (case map_of tbl n of None \<Rightarrow> [] | Some s \<Rightarrow> snd (body n s))" by simp
    with False a assms(2) [of m s] show ?thesis
      by (simp add: for_each_Cons del: for_each_signal.simps)
  qed
qed

lemma for_each_events_none:
  assumes "\<And>m s. filter P (snd (body m s)) = []"
  shows "filter P (snd (for_each_signal body tbl)) = []"
proof (induction tbl)
  case Nil
  show ?case by simp
next
  case (Cons a tbl)
  then show ?case by (cases a) (simp add: for_each_Cons assms del: for_each_signal.simps)
qed


lemma collection_body_events:
  "m \<noteq> n \<Longrightarrow> filter (collection_event n) (snd (connect_collection_signal net m s)) = []"
  "filter (collection_event n) (snd (connect_collection_signal net n s))
     = snd (connect_collection_signal net n s)"
  "filter (vector_event n) (snd (connect_collection_signal net m s)) = []"
  by (simp_all add: connect_collection_signal_def Let_def split: option.splits)

lemma vector_body_events:
  "m \<noteq> n \<Longrightarrow> filter (vector_event n) (snd (connect_vector_signal net m s)) = []"
  "filter (vector_event n) (snd (connect_vector_signal net n s))
     = snd (connect_vector_signal net n s)"
  "filter (collection_event n) (snd (connect_vector_signal net m s)) = []"
  by (simp_all add: connect_vector_signal_def Let_def)

lemma cycle_fields:
  "m_vectorsCollectionSignals (fst (lookForExogenousSignals_cycle st net))
     = fst (for_each_signal (connect_collection_signal net) (m_vectorsCollectionSignals st))"
  "m_vectorSignals (fst (lookForExogenousSignals_cycle st net))
     = fst (for_each_signal (connect_vector_signal net) (m_vectorSignals st))"
  "snd (lookForExogenousSignals_cycle st net)
     = snd (for_each_signal (connect_collection_signal net) (m_vectorsCollectionSignals st))
       @ snd (for_each_signal (connect_vector_signal net) (m_vectorSignals st))"
  by (simp_all add: lookForExogenousSignals_cycle_def split: prod.splits)

lemma cycles_Cons:
  "fst (lookForExogenousSignals_cycles st (net # nets))
     = fst (lookForExogenousSignals_cycles (fst (lookForExogenousSignals_cycle st net)) nets)"
  "snd (lookForExogenousSignals_cycles st (net # nets))
     = snd (lookForExogenousSignals_cycle st net)
       @ snd (lookForExogenousSignals_cycles (fst (lookForExogenousSignals_cycle st net)) nets)"
  by (simp_all split: prod.splits)

lemma collection_session_Cons:
  "fst (collection_session n s (net # nets))
     = fst (collection_session n (fst (connect_collection_signal net n s)) nets)"
  "snd (collection_session n s (net # nets))
     = snd (connect_collection_signal net n s)
       @ snd (collection_session n (fst (connect_collection_signal net n s)) nets)"
  by (simp_all split: prod.splits)

lemma vector_session_Cons:
  "fst (vector_session n s (net # nets))
     = fst (vector_session n (fst (connect_vector_signal net n s)) nets)"
  "snd (vector_session n s (net # nets))
     = snd (connect_vector_signal net n s)
       @ snd (vector_session n (fst (connect_vector_signal net n s)) nets)"
  by (simp_all split: prod.splits)

lemma cycles_collection:
  assumes "distinct (map fst (m_vectorsCollectionSignals st))"
    and "map_of (m_vectorsCollectionSignals st) n = Some s"
  shows "map_of (m_vectorsCollectionSignals (fst (lookForExogenousSignals_cycles st nets))) n
           = Some (fst (collection_session n s nets)) \<and>
         filter (collection_event n) (snd (lookForExogenousSignals_cycles st nets))
           = snd (collection_session n s nets)"
  using assms
proof (induction nets arbitrary: st s)
  case Nil
  then show ?case by simp
next
  case (Cons net nets)
  let ?st1 = "fst (lookForExogenousSignals_cycle st net)"
  have d: "distinct (map fst (m_vectorsCollectionSignals ?st1))"
    using Cons.prems(1) by (simp add: cycle_fields for_each_keys)
  have l: "map_of (m_vectorsCollectionSignals ?st1) n
             = Some (fst (connect_collection_signal net n s))"
    using Cons.prems(2) by (simp add: cycle_fields for_each_lookup)
  have e: "filter (collection_event n) (snd (lookForExogenousSignals_cycle st net))
             = snd (connect_collection_signal net n s)"
    using for_each_events [OF Cons.prems(1), of n "collection_event n" "connect_collection_signal net"]
      Cons.prems(2)
    by (simp add: cycle_fields collection_body_events for_each_events_none vector_body_events)
  show ?case
    using Cons.IH [OF d l] e
    by (simp add: cycles_Cons collection_session_Cons
        del: lookForExogenousSignals_cycles.simps collection_session.simps)
qed

lemma cycles_vector:
  assumes "distinct (map fst (m_vectorSignals st))"
    and "map_of (m_vectorSignals st) n = Some s"
  shows "map_of (m_vectorSignals (fst (lookForExogenousSignals_cycles st nets))) n
           = Some (fst (vector_session n s nets)) \<and>
         filter (vector_event n) (snd (lookForExogenousSignals_cycles st nets))
           = snd (vector_session n s nets)"
  using assms
proof (induction nets arbitrary: st s)
  case Nil
  then show ?case by simp
next
  case (Cons net nets)
  let ?st1 = "fst (lookForExogenousSignals_cycle st net)"
  have d: "distinct (map fst (m_vectorSignals ?st1))"
    using Cons.prems(1) by (simp add: cycle_fields for_each_keys)
  have l: "map_of (m_vectorSignals ?st1) n = Some (fst (connect_vector_signal net n s))"
    using Cons.prems(2) by (simp add: cycle_fields for_each_lookup)
  have e: "filter (vector_event n) (snd (lookForExogenousSignals_cycle st net))
             = snd (connect_vector_signal net n s)"
    using for_each_events [OF Cons.prems(1), of n "vector_event n" "connect_vector_signal net"]
      Cons.prems(2)
    by (simp add: cycle_fields collection_body_events for_each_events_none vector_body_events)
  show ?case
    using Cons.IH [OF d l] e
    by (simp add: cycles_Cons vector_session_Cons
        del: lookForExogenousSignals_cycles.simps vector_session.simps)
qed

lemma collection_session_connected:
  "connected s \<Longrightarrow> collection_session n s nets = (s, [])"
  by (induction nets) (simp_all add: connect_collection_signal_def)

lemma vector_session_connected:
  "v_connected s \<Longrightarrow> vector_session n s nets = (s, [])"
  by (induction nets) (simp_all add: connect_vector_signal_def)

lemma collection_session_shape:
  assumes "\<not> connected s" and "metadata s = []"
  shows "\<exists>k ok. snd (collection_session n s nets)
            = replicate k (ConnectCollection n False)
              @ (if connected (fst (collection_session n s nets))
                 then [ConnectCollection n True, GetMetadata n ok] else []) \<and>
           (connected (fst (collection_session n s nets)) \<and> ok
            \<or> metadata (fst (collection_session n s nets)) = [])"
  using assms
proof (induction nets arbitrary: s)
  case Nil
  then show ?case by simp
next
  case (Cons net nets)
  show ?case
  proof (cases "collection_connect net n")
    case False
    let ?s1 = "s\<lparr>connected := False\<rparr>"
    have step: "connect_collection_signal net n s = (?s1, [ConnectCollection n False])"
      using Cons.prems False by (simp add: connect_collection_signal_def)
    have "\<not> connected ?s1" "metadata ?s1 = []" using Cons.prems by simp_all
    from Cons.IH [OF this] obtain k ok where
      ih: "snd (collection_session n ?s1 nets)
            = replicate k (ConnectCollection n False)
              @ (if connected (fst (collection_session n ?s1 nets))
                 then [ConnectCollection n True, GetMetadata n ok] else [])"
          "connected (fst (collection_session n ?s1 nets)) \<and> ok
            \<or> metadata (fst (collection_session n ?s1 nets)) = []"
      by blast
    have "snd (collection_session n s (net # nets))
            = replicate (Suc k) (ConnectCollection n False)
              @ (if connected (fst (collection_session n s (net # nets)))
                 then [ConnectCollection n True, GetMetadata n ok] else [])"
      using ih(1) step
      by (simp add: collection_session_Cons del: collection_session.simps)
    moreover have "connected (fst (collection_session n s (net # nets))) \<and> ok
            \<or> metadata (fst (collection_session n s (net # nets))) = []"
      using ih(2) step
      by (simp add: collection_session_Cons del: collection_session.simps)
    ultimately show ?thesis by blast
  next
    case True
    define s1 where "s1 = fst (connect_collection_signal net n s)"
    define ok where "ok = (collection_getMetadata net n \<noteq> None)"
    have step: "connect_collection_signal net n s
        = (s1, [ConnectCollection n True, GetMetadata n ok])"
      unfolding s1_def ok_def using Cons.prems True
      by (cases "collection_getMetadata net n") (simp_all add: connect_collection_signal_def)
    have s1: "connected s1" "ok \<or> metadata s1 = []"
      unfolding s1_def ok_def using Cons.prems True
      by (cases "collection_getMetadata net n"; simp add: connect_collection_signal_def)+
    have rest: "collection_session n s1 nets = (s1, [])"
      using s1(1) by (rule collection_session_connected)
    have "snd (collection_session n s (net # nets))
            = replicate 0 (ConnectCollection n False)
              @ (if connected (fst (collection_session n s (net # nets)))
                 then [ConnectCollection n True, GetMetadata n ok] else [])"
      using step rest s1 by simp
    moreover have "connected (fst (collection_session n s (net # nets))) \<and> ok
            \<or> metadata (fst (collection_session n s (net # nets))) = []"
      using step rest s1 by auto
    ultimately show ?thesis by blast
  qed
qed

lemma vector_session_shape:
  assumes "\<not> v_connected s"
  shows "\<exists>k. snd (vector_session n s nets)
            = replicate k (ConnectVector n False)
              @ (if v_connected (fst (vector_session n s nets))
                 then [ConnectVector n True] else [])"
  using assms
proof (induction nets arbitrary: s)
  case Nil
  then show ?case by simp
next
  case (Cons net nets)
  show ?case
  proof (cases "vector_connect net n")
    case False
    let ?s1 = "s\<lparr>v_connected := False\<rparr>"
    have step: "connect_vector_signal net n s = (?s1, [ConnectVector n False])"
      using Cons.prems False by (simp add: connect_vector_signal_def)
    have "\<not> v_connected ?s1" by simp
    from Cons.IH [OF this] obtain k where
      ih: "snd (vector_session n ?s1 nets)
            = replicate k (ConnectVector n False)
              @ (if v_connected (fst (vector_session n ?s1 nets))
                 then [ConnectVector n True] else [])"
      by blast
    have "snd (vector_session n s (net # nets))
            = replicate (Suc k) (ConnectVector n False)
              @ (if v_connected (fst (vector_session n s (net # nets)))
                 then [ConnectVector n True] else [])"
      using ih step by (simp add: vector_session_Cons del: vector_session.simps)
    then show ?thesis by blast
  next
    case True
    let ?s1 = "s\<lparr>v_connected := True\<rparr>"
    have step: "connect_vector_signal net n s = (?s1, [ConnectVector n True])"
      using Cons.prems True by (simp add: connect_vector_signal_def)
    have rest: "vector_session n ?s1 nets = (?s1, [])"
      by (rule vector_session_connected) simp
    have "snd (vector_session n s (net # nets))
            = replicate 0 (ConnectVector n False)
              @ (if v_connected (fst (vector_session n s (net # nets)))
                 then [ConnectVector n True] else [])"
      using step rest by simp
    then show ?thesis by blast
  qed
qed

lemma exo_init_lookup:
  "n \<in> set cs \<Longrightarrow>
     map_of (m_vectorsCollectionSignals (exo_init cs vs)) n
       = Some \<lparr>connected = False, metadata = []\<rparr>"
  "n \<in> set vs \<Longrightarrow> map_of (m_vectorSignals (exo_init cs vs)) n = Some \<lparr>v_connected = False\<rparr>"
  by (simp_all add: exo_init_def map_of_map_restrict)

lemma exo_init_keys:
  "map fst (m_vectorsCollectionSignals (exo_init cs vs)) = cs"
  "map fst (m_vectorSignals (exo_init cs vs)) = vs"
  by (simp_all add: exo_init_def comp_def)

lemma binding_traces:
  assumes "distinct collections" and "distinct vectors"
  shows "(\<forall>n \<in> set collections. \<exists>s k ok.
            map_of (m_vectorsCollectionSignals
              (fst (lookForExogenousSignals_cycles (exo_init collections vectors) nets))) n = Some s \<and>
            filter (collection_event n)
              (snd (lookForExogenousSignals_cycles (exo_init collections vectors) nets))
              = replicate k (ConnectCollection n False)
                @ (if connected s then [ConnectCollection n True, GetMetadata n ok] else []) \<and>
            (connected s \<and> ok \<or> metadata s = [])) \<and>
         (\<forall>n \<in> set vectors. \<exists>s k.
            map_of (m_vectorSignals
              (fst (lookForExogenousSignals_cycles (exo_init collections vectors) nets))) n = Some s \<and>
            filter (vector_event n)
              (snd (lookForExogenousSignals_cycles (exo_init collections vectors) nets))
              = replicate k (ConnectVector n False)
                @ (if v_connected s then [ConnectVector n True] else []))"
proof (intro conjI ballI)
  fix n assume n: "n \<in> set collections"
  let ?s0 = "\<lparr>connected = False, metadata = []\<rparr>"
  have d: "distinct (map fst (m_vectorsCollectionSignals (exo_init collections vectors)))"
    using assms(1) by (simp add: exo_init_keys)
  note proj = cycles_collection [OF d exo_init_lookup(1) [OF n], of nets]
  have "\<not> connected ?s0" "metadata ?s0 = []" by simp_all
  from collection_session_shape [OF this, of n nets] proj
  show "\<exists>s k ok.
            map_of (m_vectorsCollectionSignals
              (fst (lookForExogenousSignals_cycles (exo_init collections vectors) nets))) n = Some s \<and>
            filter (collection_event n)
              (snd (lookForExogenousSignals_cycles (exo_init collections vectors) nets))
              = replicate k (ConnectCollection n False)
                @ (if connected s then [ConnectCollection n True, GetMetadata n ok] else []) \<and>
            (connected s \<and> ok \<or> metadata s = [])"
    by (metis (no_types, lifting))
next
  fix n assume n: "n \<in> set vectors"
  let ?s0 = "\<lparr>v_connected = False\<rparr>"
  have d: "distinct (map fst (m_vectorSignals (exo_init collections vectors)))"
    using assms(2) by (simp add: exo_init_keys)
  note proj = cycles_vector [OF d exo_init_lookup(2) [OF n], of nets]
  have "\<not> v_connected ?s0" by simp
  from vector_session_shape [OF this, of n nets] proj
  show "\<exists>s k.
            map_of (m_vectorSignals
              (fst (lookForExogenousSignals_cycles (exo_init collections vectors) nets))) n = Some s \<and>
            filter (vector_event n)
              (snd (lookForExogenousSignals_cycles (exo_init collections vectors) nets))
              = replicate k (ConnectVector n False)
                @ (if v_connected s then [ConnectVector n True] else [])"
    by (metis (no_types, lifting))
qed

lemma for_each_list_all:
  assumes "\<And>m s. m \<in> set (map fst tbl) \<Longrightarrow> list_all P (snd (body m s))"
  shows "list_all P (snd (for_each_signal body tbl))"
  using assms
proof (induction tbl)
  case Nil
  show ?case by simp
next
  case (Cons a tbl)
  obtain m s where a: "a = (m, s)" by (cases a)
  have "list_all P (snd (body m s))" using Cons.prems a by simp
  moreover have "list_all P (snd (for_each_signal body tbl))"
    using Cons.prems by (intro Cons.IH) simp
  ultimately show ?case
    by (simp add: a for_each_Cons del: for_each_signal.simps)
qed

lemma collection_body_in_tables:
  "m \<in> set cs \<Longrightarrow> list_all (event_in_tables cs vs) (snd (connect_collection_signal net m s))"
  by (simp add: connect_collection_signal_def Let_def split: option.splits)

lemma vector_body_in_tables:
  "m \<in> set vs \<Longrightarrow> list_all (event_in_tables cs vs) (snd (connect_vector_signal net m s))"
  by (simp add: connect_vector_signal_def Let_def)

lemma vector_body_no_metadata:
  "metadata_requests (snd (connect_vector_signal net m s)) = []"
  by (simp add: connect_vector_signal_def Let_def)

lemma cycle_in_tables:
  "list_all (event_in_tables (map fst (m_vectorsCollectionSignals st)) (map fst (m_vectorSignals st)))
     (snd (lookForExogenousSignals_cycle st net))"
proof -
  let ?P = "event_in_tables (map fst (m_vectorsCollectionSignals st)) (map fst (m_vectorSignals st))"
  have "list_all ?P (snd (for_each_signal (connect_collection_signal net)
          (m_vectorsCollectionSignals st)))"
    by (rule for_each_list_all) (rule collection_body_in_tables)
  moreover have "list_all ?P (snd (for_each_signal (connect_vector_signal net)
          (m_vectorSignals st)))"
    by (rule for_each_list_all) (rule vector_body_in_tables)
  ultimately show ?thesis by (simp add: cycle_fields)
qed

lemma cycle_keys:
  "map fst (m_vectorsCollectionSignals (fst (lookForExogenousSignals_cycle st net)))
     = map fst (m_vectorsCollectionSignals st)"
  "map fst (m_vectorSignals (fst (lookForExogenousSignals_cycle st net)))
     = map fst (m_vectorSignals st)"
  by (simp_all add: cycle_fields for_each_keys)

lemma cycles_in_tables:
  "list_all (event_in_tables (map fst (m_vectorsCollectionSignals st)) (map fst (m_vectorSignals st)))
     (snd (lookForExogenousSignals_cycles st nets))"
proof (induction nets arbitrary: st)
  case Nil
  show ?case by simp
next
  case (Cons net nets)
  show ?case
    using Cons.IH [of "fst (lookForExogenousSignals_cycle st net)"] cycle_in_tables [of st net]
    by (simp add: cycles_Cons cycle_keys del: lookForExogenousSignals_cycles.simps)
qed

lemma metadata_requests_in_tables:
  "list_all (event_in_tables cs vs) evs \<Longrightarrow> set (metadata_requests evs) \<subseteq> set cs"
  by (induction evs rule: metadata_requests.induct) auto

text \<open>
  C7, as the code has it. In a session that starts with every binding unconnected and
  the tables keyed by distinct names, the calls made for a vectors-collection binding are
  some failed connection attempts, followed, when the binding ends up connected, by the
  one successful attempt and one metadata request in the same cycle, and by nothing
  else: no attempt is made for a connected binding and the metadata is requested exactly
  once. When that request fails the binding stays connected and its metadata stays
  empty. For a plain vector binding the calls are some failed attempts followed by at
  most one successful attempt. Every event of the session is one of these: a metadata
  request is only ever made under the name of a vectors-collection binding, so together
  with the shape of the calls of that binding, none is made for a plain vector binding.
\<close>

theorem exogenous_binding_lifecycle:
  assumes "distinct collections" and "distinct vectors"
  shows "(\<forall>n \<in> set collections. \<exists>s k ok.
            map_of (m_vectorsCollectionSignals
              (fst (lookForExogenousSignals_cycles (exo_init collections vectors) nets))) n = Some s \<and>
            filter (collection_event n)
              (snd (lookForExogenousSignals_cycles (exo_init collections vectors) nets))
              = replicate k (ConnectCollection n False)
                @ (if connected s then [ConnectCollection n True, GetMetadata n ok] else []) \<and>
            (connected s \<and> ok \<or> metadata s = [])) \<and>
         (\<forall>n \<in> set vectors. \<exists>s k.
            map_of (m_vectorSignals
              (fst (lookForExogenousSignals_cycles (exo_init collections vectors) nets))) n = Some s \<and>
            filter (vector_event n)
              (snd (lookForExogenousSignals_cycles (exo_init collections vectors) nets))
              = replicate k (ConnectVector n False)
                @ (if v_connected s then [ConnectVector n True] else [])) \<and>
         list_all (event_in_tables collections vectors)
           (snd (lookForExogenousSignals_cycles (exo_init collections vectors) nets)) \<and>
         set (metadata_requests (snd (lookForExogenousSignals_cycles (exo_init collections vectors) nets)))
           \<subseteq> set collections"
proof -
  have t: "list_all (event_in_tables collections vectors)
           (snd (lookForExogenousSignals_cycles (exo_init collections vectors) nets))"
    using cycles_in_tables [of "exo_init collections vectors" nets]
    by (simp add: exo_init_keys)
  show ?thesis
    using binding_traces [OF assms, of nets] t metadata_requests_in_tables [OF t]
    by blast
qed

theorem exogenous_binding_lifecycle_witness:
  "distinct [''c''] \<and> distinct [''v''] \<and>
   snd (lookForExogenousSignals_cycles (exo_init [''c''] [''v'']) [net_down, net_up, net_up])
     = [ConnectCollection ''c'' False, ConnectVector ''v'' False,
        ConnectCollection ''c'' True, GetMetadata ''c'' False, ConnectVector ''v'' True] \<and>
   (\<exists>s k ok.
      map_of (m_vectorsCollectionSignals
        (fst (lookForExogenousSignals_cycles (exo_init [''c''] [''v'']) [net_down, net_up, net_up])))
        ''c'' = Some s \<and>
      filter (collection_event ''c'')
        (snd (lookForExogenousSignals_cycles (exo_init [''c''] [''v'']) [net_down, net_up, net_up]))
        = replicate k (ConnectCollection ''c'' False)
          @ (if connected s then [ConnectCollection ''c'' True, GetMetadata ''c'' ok] else []) \<and>
      (connected s \<and> ok \<or> metadata s = [])) \<and>
   metadata_requests
     (snd (lookForExogenousSignals_cycles (exo_init [''c''] [''v'']) [net_down, net_up, net_up]))
     = [''c'']"
proof -
  have ev: "snd (lookForExogenousSignals_cycles (exo_init [''c''] [''v'']) [net_down, net_up, net_up])
     = [ConnectCollection ''c'' False, ConnectVector ''v'' False,
        ConnectCollection ''c'' True, GetMetadata ''c'' False, ConnectVector ''v'' True]"
    by (simp add: exo_init_def lookForExogenousSignals_cycle_def connect_collection_signal_def
        connect_vector_signal_def net_down_def net_up_def)
  have d: "distinct [''c'']" "distinct [''v'']" by simp_all
  have c: "''c'' \<in> set [''c'']" by simp
  note w = bspec [OF conjunct1 [OF exogenous_binding_lifecycle [OF d, of "[net_down, net_up, net_up]"]] c]
  have m: "metadata_requests
     (snd (lookForExogenousSignals_cycles (exo_init [''c''] [''v'']) [net_down, net_up, net_up]))
     = [''c'']"
    unfolding ev by simp
  show ?thesis
    by (rule conjI [OF d(1) conjI [OF d(2) conjI [OF ev conjI [OF w m]]]])
qed

text \<open>
  C7 as stated fails for the bindings of \<open>m_vectorSignals\<close>: a plain vector binding that
  connects in the first cycle is connected, and no metadata negotiation is made for it,
  neither in that cycle nor later.
\<close>

theorem vector_binding_no_metadata_counterexample:
  "snd (lookForExogenousSignals_cycles (exo_init [] [''v'']) [net_up, net_up])
     = [ConnectVector ''v'' True] \<and>
   map_of (m_vectorSignals (fst (lookForExogenousSignals_cycles (exo_init [] [''v'']) [net_up, net_up])))
     ''v'' = Some \<lparr>v_connected = True\<rparr>"
  by (simp add: exo_init_def lookForExogenousSignals_cycle_def connect_vector_signal_def
      net_up_def)

section \<open>Properties of findAndReplaceAll\<close>

lemma str_find_append:
  "str_find (xs @ rest) t (length xs) = map_option (\<lambda>i. length xs + i) (find_first t rest)"
  by (simp add: str_find_def)

lemma find_first_char_absent: "c \<notin> set ys \<Longrightarrow> find_first [c] ys = None"
  by (induction ys) auto

lemma find_first_char_present:
  "c \<notin> set ys \<Longrightarrow> find_first [c] (ys @ c # zs) = Some (length ys)"
  by (induction ys) auto

lemma loop_single_char:
  assumes "c \<notin> set xs" and "r \<noteq> c"
  shows "findAndReplaceAll_loop [c] [r] (xs @ rest) (str_find (xs @ rest) [c] (length xs))
           = Some (xs @ map (\<lambda>x. if x = c then r else x) rest)"
  using assms(1)
proof (induction "length rest" arbitrary: xs rest rule: less_induct)
  case less
  show ?case
  proof (cases "c \<in> set rest")
    case False
    then have "map (\<lambda>x. if x = c then r else x) rest = rest"
      by (induction rest) auto
    moreover have "str_find (xs @ rest) [c] (length xs) = None"
      using False by (simp add: str_find_append find_first_char_absent)
    ultimately show ?thesis
      by (subst findAndReplaceAll_loop.simps) simp
  next
    case True
    then obtain ys zs where rest: "rest = ys @ c # zs" and ys: "c \<notin> set ys"
      by (auto dest: split_list_first)
    have pos: "str_find (xs @ rest) [c] (length xs) = Some (length xs + length ys)"
      using ys by (simp add: str_find_append rest find_first_char_present)
    let ?xs' = "xs @ ys @ [r]"
    have data': "str_replace (xs @ rest) (length xs + length ys) (length [c]) [r] = ?xs' @ zs"
      by (simp add: rest str_replace_def)
    have len: "length xs + length ys + length [r] = length ?xs'" by simp
    have "length zs < length rest" by (simp add: rest)
    moreover have "c \<notin> set ?xs'" using less.prems ys assms(2) by simp
    ultimately have ih: "findAndReplaceAll_loop [c] [r] (?xs' @ zs)
        (str_find (?xs' @ zs) [c] (length ?xs'))
        = Some (?xs' @ map (\<lambda>x. if x = c then r else x) zs)"
      by (rule less.hyps)
    have ysmap: "map (\<lambda>x. if x = c then r else x) ys = ys"
      using ys by (induction ys) auto
    have "findAndReplaceAll_loop [c] [r] (xs @ rest) (str_find (xs @ rest) [c] (length xs))
        = findAndReplaceAll_loop [c] [r] (?xs' @ zs) (str_find (?xs' @ zs) [c] (length ?xs'))"
      apply (subst findAndReplaceAll_loop.simps)
      apply (simp only: pos option.sel option.distinct if_False data' len)
      done
    also have "\<dots> = Some (?xs' @ map (\<lambda>x. if x = c then r else x) zs)"
      by (rule ih)
    also have "\<dots> = Some (xs @ map (\<lambda>x. if x = c then r else x) rest)"
      by (simp add: rest ysmap)
    finally show ?thesis .
  qed
qed

lemma findAndReplaceAll_dash:
  "findAndReplaceAll s ''-'' ''_'' = Some (dash_to_underscore s)"
  using loop_single_char [of "CHR ''-''" "[]" "CHR ''_''" s]
  by (simp add: findAndReplaceAll_def dash_to_underscore_def)

section \<open>Properties of the acquisition tick\<close>

lemma only_data_simps:
  "only_data []"
  "only_data (evs @ evs') \<longleftrightarrow> only_data evs \<and> only_data evs'"
  "only_data (PushBack b t n # evs) \<longleftrightarrow> only_data evs"
  "only_data (PopulateData n b # evs) \<longleftrightarrow> only_data evs"
  "only_data (ClearData # evs) \<longleftrightarrow> only_data evs"
proof -
  have app: "added_channels (xs @ ys) = added_channels xs @ added_channels ys" for xs ys
    by (induction xs rule: added_channels.induct) simp_all
  show "only_data (evs @ evs') \<longleftrightarrow> only_data evs \<and> only_data evs'"
    by (auto simp: only_data_def app)
qed (simp_all add: only_data_def)

lemma added_channels_append:
  "added_channels (xs @ ys) = added_channels xs @ added_channels ys"
  by (induction xs rule: added_channels.induct) simp_all

lemma only_data_concat: "(\<And>x. x \<in> set xs \<Longrightarrow> only_data (f x)) \<Longrightarrow> only_data (concat (map f xs))"
  by (induction xs) (simp_all add: only_data_simps)

lemma only_data_log_and_publish: "only_data (log_and_publish b t n rt)"
  by (cases b) (simp_all add: log_and_publish_def only_data_simps)

lemma only_data_for_each_sensor: "only_data (for_each_sensor N g sensors m t)"
  unfolding for_each_sensor_def by (rule only_data_concat) (rule only_data_log_and_publish)

lemma only_data_blocks:
  "only_data (run_jointStates N d env t)"
  "only_data (run_motorStates N d env t)"
  "only_data (run_motorPWM N d env t)"
  "only_data (run_PIDs N d env t)"
  "only_data (run_FTSensors N d env t)"
  "only_data (run_temperatureSensors N d env t)"
  "only_data (run_inertials N d env t)"
  "only_data (run_cartesianWrenches N d env t)"
  by (simp_all add: run_jointStates_def run_motorStates_def run_motorPWM_def run_PIDs_def
      run_FTSensors_def run_temperatureSensors_def run_inertials_def run_cartesianWrenches_def
      only_data_simps only_data_log_and_publish only_data_for_each_sensor)

lemma only_data_IMUs: "only_data (run_IMUs N env t)"
  unfolding run_IMUs_def
  by (rule only_data_concat)
    (simp add: only_data_simps only_data_log_and_publish Let_def split: option.splits)

lemma only_data_vectorsCollections: "only_data (run_vectorsCollections N env t)"
  unfolding run_vectorsCollections_def
  by (rule only_data_concat)
    (auto simp: only_data_simps only_data_log_and_publish split: option.splits prod.splits
      intro!: only_data_concat)

lemma run_textLogs_ok:
  "\<exists>stored' evs. run_textLogs n reads stored = Some (stored', evs)
      \<and> text_drain_ok stored reads stored' evs"
proof (induction reads arbitrary: n stored)
  case Nil
  show ?case by (simp add: text_drain_ok_def)
next
  case (Cons r reads)
  obtain b pending where r: "r = (b, pending)" by (cases r)
  show ?case
  proof (cases "n > 0")
    case False
    then show ?thesis by (simp add: r text_drain_ok_def)
  next
    case pos: True
    show ?thesis
    proof (cases b)
      case None
      then show ?thesis using pos by (simp add: r text_drain_ok_def)
    next
      case (Some msg)
      let ?name = "dash_to_underscore (text_signal_name msg)"
      have far: "findAndReplaceAll (text_signal_name msg) ''-'' ''_'' = Some ?name"
        by (rule findAndReplaceAll_dash)
      show ?thesis
      proof (cases "isValid msg")
        case False
        from Cons.IH [of pending stored] obtain stored' evs where
          "run_textLogs pending reads stored = Some (stored', evs)"
          "text_drain_ok stored reads stored' evs" by blast
        then show ?thesis using pos Some False
          by (simp add: r text_drain_ok_def)
      next
        case valid: True
        show ?thesis
        proof (cases "?name \<in> stored")
          case True
          from Cons.IH [of pending stored] obtain stored' evs where
            "run_textLogs pending reads stored = Some (stored', evs)"
            "text_drain_ok stored reads stored' evs" by blast
          then show ?thesis using pos Some valid True far
            by (auto simp: r text_drain_ok_def)
        next
          case False
          from Cons.IH [of pending "insert ?name stored"] obtain stored' evs where
            ih: "run_textLogs pending reads (insert ?name stored) = Some (stored', evs)"
            "text_drain_ok (insert ?name stored) reads stored' evs" by blast
          have "run_textLogs n (r # reads) stored = Some (stored', AddChannel ?name # evs)"
            using pos Some valid False far ih(1) by (simp add: r)
          moreover have "text_drain_ok stored (r # reads) stored' (AddChannel ?name # evs)"
            using ih(2) False Some valid by (auto simp: r text_drain_ok_def)
          ultimately show ?thesis by blast
        qed
      qed
    qed
  qed
qed

lemma dash_free: "CHR ''-'' \<notin> set (dash_to_underscore s)"
  by (auto simp: dash_to_underscore_def)


lemma run_result:
  "\<exists>stored' text_events data_events.
      run N d env = Some (d\<lparr>m_textLogsStoredInManager := stored'\<rparr>,
                          ClearData # data_events @ text_events @ [SendData]) \<and>
      only_data data_events \<and>
      text_drain_ok (m_textLogsStoredInManager d) (text_reads env) stored' text_events"
proof -
  obtain stored' text_events where
    t: "run_textLogs (getPendingReads env) (text_reads env) (m_textLogsStoredInManager d)
          = Some (stored', text_events)"
    and ok: "text_drain_ok (m_textLogsStoredInManager d) (text_reads env) stored' text_events"
    using run_textLogs_ok by blast
  let ?t = "clock_now env"
  let ?data = "PopulateData (ROBOT_RT_ROOT_NAME N @ TREE_DELIM N @ TIMESTAMPS_NAME N) [?t]
      # run_jointStates N d env ?t @ run_motorStates N d env ?t @ run_motorPWM N d env ?t
      @ run_PIDs N d env ?t @ run_FTSensors N d env ?t @ run_temperatureSensors N d env ?t
      @ run_inertials N d env ?t @ run_IMUs N env ?t @ run_cartesianWrenches N d env ?t
      @ run_vectorsCollections N env ?t"
  have "run N d env = Some (d\<lparr>m_textLogsStoredInManager := stored'\<rparr>,
                          ClearData # ?data @ text_events @ [SendData])"
    by (simp add: run_def t Let_def)
  moreover have "only_data ?data"
    by (simp add: only_data_simps only_data_blocks only_data_IMUs only_data_vectorsCollections)
  ultimately show ?thesis using ok by blast
qed























lemma run_channels:
  "\<exists>d' evs. run N d env = Some (d', evs) \<and>
      text_drain_ok (m_textLogsStoredInManager d) (text_reads env)
        (m_textLogsStoredInManager d') (filter (\<lambda>e. e \<noteq> SendData) evs)"
proof -
  obtain stored' text_events data_events where
    r: "run N d env = Some (d\<lparr>m_textLogsStoredInManager := stored'\<rparr>,
                          ClearData # data_events @ text_events @ [SendData])"
    and d: "only_data data_events"
    and t: "text_drain_ok (m_textLogsStoredInManager d) (text_reads env) stored' text_events"
    using run_result by blast
  have f: "added_channels (filter (\<lambda>e. e \<noteq> SendData) evs) = added_channels evs" for evs
    by (induction evs rule: added_channels.induct) simp_all
  have "added_channels (ClearData # data_events @ text_events @ [SendData])
          = added_channels text_events"
    using d by (simp add: added_channels_append only_data_def)
  then have "text_drain_ok (m_textLogsStoredInManager d) (text_reads env) stored'
          (filter (\<lambda>e. e \<noteq> SendData) (ClearData # data_events @ text_events @ [SendData]))"
    using t unfolding text_drain_ok_def f by simp
  with r show ?thesis by simp
qed

lemma session_names_Cons:
  "session_names (env # envs)
     = (\<lambda>m. dash_to_underscore (text_signal_name m)) ` set (valid_msgs (text_reads env))
       \<union> session_names envs"
  by (simp add: session_names_def image_Un)

lemma run_ticks_channels:
  "\<exists>d' tr. run_ticks N d envs = Some (d', tr) \<and>
      distinct (added_channels tr) \<and>
      set (added_channels tr) \<inter> m_textLogsStoredInManager d = {} \<and>
      m_textLogsStoredInManager d' = m_textLogsStoredInManager d \<union> set (added_channels tr) \<and>
      set (added_channels tr) \<subseteq> session_names envs"
proof (induction envs arbitrary: d)
  case Nil
  show ?case by (simp add: session_names_def)
next
  case (Cons env envs)
  obtain d1 evs1 where
    r: "run N d env = Some (d1, evs1)"
    and ok: "text_drain_ok (m_textLogsStoredInManager d) (text_reads env)
        (m_textLogsStoredInManager d1) (filter (\<lambda>e. e \<noteq> SendData) evs1)"
    using run_channels [of N d env] by blast
  have f: "added_channels (filter (\<lambda>e. e \<noteq> SendData) evs) = added_channels evs" for evs
    by (induction evs rule: added_channels.induct) simp_all
  from ok have
    a1: "distinct (added_channels evs1)"
    and a2: "set (added_channels evs1) \<inter> m_textLogsStoredInManager d = {}"
    and a3: "m_textLogsStoredInManager d1
               = m_textLogsStoredInManager d \<union> set (added_channels evs1)"
    and a4: "set (added_channels evs1)
               \<subseteq> (\<lambda>m. dash_to_underscore (text_signal_name m)) ` set (valid_msgs (text_reads env))"
    unfolding text_drain_ok_def f by simp_all
  from Cons.IH [of d1] obtain d2 evs2 where
    rt: "run_ticks N d1 envs = Some (d2, evs2)"
    and b1: "distinct (added_channels evs2)"
    and b2: "set (added_channels evs2) \<inter> m_textLogsStoredInManager d1 = {}"
    and b3: "m_textLogsStoredInManager d2
               = m_textLogsStoredInManager d1 \<union> set (added_channels evs2)"
    and b4: "set (added_channels evs2) \<subseteq> session_names envs"
    by blast
  have "run_ticks N d (env # envs) = Some (d2, evs1 @ evs2)"
    using r rt by simp
  moreover have "distinct (added_channels (evs1 @ evs2))"
    using a1 b1 b2 a3 by (auto simp: added_channels_append)
  moreover have "set (added_channels (evs1 @ evs2)) \<inter> m_textLogsStoredInManager d = {}"
    using a2 b2 a3 by (auto simp: added_channels_append)
  moreover have "m_textLogsStoredInManager d2
      = m_textLogsStoredInManager d \<union> set (added_channels (evs1 @ evs2))"
    using a3 b3 by (auto simp: added_channels_append)
  moreover have "set (added_channels (evs1 @ evs2)) \<subseteq> session_names (env # envs)"
    using a4 b4 unfolding session_names_Cons added_channels_append by auto
  ultimately show ?case by blast
qed

text \<open>
  C10. \<open>findAndReplaceAll\<close> with \<open>"-"\<close> and \<open>"_"\<close> returns the name with every \<open>-\<close> replaced by
  \<open>_\<close>, and the result has no \<open>-\<close>. Over the ticks of a session, starting from any device
  state, the channels added are pairwise distinct, none of them was in the stored set at
  the start, the stored set at the end is the stored set at the start together with the
  channels added (so from an empty set, the stored set is the set of channels added), and
  every channel added is the name derived from a valid message the port delivered.
\<close>

theorem text_log_channels_added_once:
  "findAndReplaceAll (text_signal_name msg) ''-'' ''_''
     = Some (dash_to_underscore (text_signal_name msg)) \<and>
   CHR ''-'' \<notin> set (dash_to_underscore (text_signal_name msg)) \<and>
   (\<exists>d' tr. run_ticks N d envs = Some (d', tr) \<and>
      distinct (added_channels tr) \<and>
      set (added_channels tr) \<inter> m_textLogsStoredInManager d = {} \<and>
      m_textLogsStoredInManager d' = m_textLogsStoredInManager d \<union> set (added_channels tr) \<and>
      set (added_channels tr) \<subseteq> session_names envs)"
  using run_ticks_channels [of N d envs] dash_free [of "text_signal_name msg"]
    findAndReplaceAll_dash [of "text_signal_name msg"]
  by simp

text \<open>
  C2 at the motor PWM. With the PWM stream enabled and a PWM reading of \<open>[1/2]\<close>, the value
  is appended to the Buffer Store under the PWM channel name, and it is published under
  the real-time name built from \<open>MOTOR_STATE_CURRENTS_NAME\<close>. With the names of
  \<open>example_names\<close> nothing is published under the real-time PWM name.
\<close>

theorem run_publishes_pwm_under_currents:
  "run N pwm_only_device pwm_tick
     = Some (pwm_only_device,
         [ClearData,
          PopulateData (ROBOT_RT_ROOT_NAME N @ TREE_DELIM N @ TIMESTAMPS_NAME N) [0],
          PushBack [1 / 2] 0 (MOTOR_STATE_PWM_NAME N),
          PopulateData (ROBOT_RT_ROOT_NAME N @ TREE_DELIM N @ MOTOR_STATE_CURRENTS_NAME N) [1 / 2],
          SendData]) \<and>
   run example_names pwm_only_device pwm_tick
     = Some (pwm_only_device,
         [ClearData,
          PopulateData ''robot_realtime::timestamps'' [0],
          PushBack [1 / 2] 0 ''motors_state::PWM'',
          PopulateData ''robot_realtime::motors_state::currents'' [1 / 2],
          SendData])"
proof -
  have g: "run N pwm_only_device pwm_tick
     = Some (pwm_only_device,
         [ClearData,
          PopulateData (ROBOT_RT_ROOT_NAME N @ TREE_DELIM N @ TIMESTAMPS_NAME N) [0],
          PushBack [1 / 2] 0 (MOTOR_STATE_PWM_NAME N),
          PopulateData (ROBOT_RT_ROOT_NAME N @ TREE_DELIM N @ MOTOR_STATE_CURRENTS_NAME N) [1 / 2],
          SendData])" for N
    by (simp add: run_def run_jointStates_def run_motorStates_def run_motorPWM_def
        run_PIDs_def run_FTSensors_def run_temperatureSensors_def run_inertials_def
        run_IMUs_def run_cartesianWrenches_def run_vectorsCollections_def log_and_publish_def
        for_each_sensor_def pwm_only_device_def pwm_tick_def)
  show ?thesis
    using g [of N] g [of example_names] by (simp add: example_names_def)
qed

section \<open>Properties of the save callback\<close>

lemma renames_append: "renames (xs @ ys) = renames xs @ renames ys"
  by (induction xs rule: renames.induct) simp_all

lemma and_then_stops: "fst r \<noteq> Returned True \<Longrightarrow> and_then r k = r"
  by (cases r) (auto simp: and_then_def split: outcome.splits bool.splits)

lemma and_then_goes_on:
  "fst r = Returned True \<Longrightarrow>
     and_then r k = (fst (k (fst (snd r))), fst (snd (k (fst (snd r)))),
                     snd (snd r) @ snd (snd (k (fst (snd r)))))"
  by (cases r) (auto simp: and_then_def split: prod.splits)

lemma and_then_assoc:
  "and_then (and_then r f) g = and_then r (\<lambda>m. and_then (f m) g)"
proof (cases "fst r = Returned True")
  case True
  show ?thesis
  proof (cases "fst (f (fst (snd r))) = Returned True")
    case t: True
    then have "fst (and_then r f) = Returned True"
      using True by (simp add: and_then_goes_on)
    then show ?thesis
      using True t by (simp add: and_then_goes_on)
  next
    case f: False
    then have "fst (and_then r f) \<noteq> Returned True"
      using True by (simp add: and_then_goes_on)
    then show ?thesis
      using True f by (simp add: and_then_stops and_then_goes_on)
  qed
next
  case False
  then show ?thesis by (simp add: and_then_stops)
qed

lemma for_each_camera_append:
  "for_each_camera body (xs @ ys) m
     = and_then (for_each_camera body xs m) (for_each_camera body ys)"
proof (induction xs arbitrary: m)
  case Nil
  show ?case by (simp add: and_then_def split: prod.splits)
next
  case (Cons x xs)
  have "for_each_camera body (xs @ ys)
          = (\<lambda>m. and_then (for_each_camera body xs m) (for_each_camera body ys))"
    by (rule ext) (rule Cons)
  then show ?case by (simp add: and_then_assoc)
qed

lemma for_each_camera_stops:
  assumes "fst (for_each_camera body (pre @ [c]) m) \<noteq> Returned True"
  shows "for_each_camera body (pre @ c # post) m = for_each_camera body (pre @ [c]) m"
proof -
  have "for_each_camera body (pre @ c # post) m
          = and_then (for_each_camera body (pre @ [c]) m) (for_each_camera body post)"
    using for_each_camera_append [of body "pre @ [c]" post m] by simp
  with assms show ?thesis by (simp add: and_then_stops)
qed

lemma and_then_True_iff:
  "fst (and_then r k) = Returned True
     \<longleftrightarrow> fst r = Returned True \<and> fst (k (fst (snd r))) = Returned True"
proof (cases "fst r = Returned True")
  case True
  then show ?thesis by (simp add: and_then_goes_on)
next
  case False
  then show ?thesis by (simp add: and_then_stops)
qed

lemma and_then_events:
  "fst r = Returned True \<Longrightarrow>
     snd (snd (and_then r k)) = snd (snd r) @ snd (snd (k (fst (snd r))))"
  by (simp add: and_then_goes_on)

lemma saveVideo_renames:
  "fst (saveVideo fs f m c k) = Returned True \<Longrightarrow>
     length (renames (snd (snd (saveVideo fs f m c k)))) = 1"
  by (auto simp: saveVideo_def Let_def renames_append split: option.splits if_splits)

lemma reopen_renames: "renames (snd (snd (reopen fs m c k dims))) = []"
  by (auto simp: reopen_def openVideoWriter_def createFramesFolder_def Let_def
      split: option.splits)

lemma save_rgb_camera_renames:
  assumes "fst (save_rgb_camera fs f meth c m) = Returned True"
  shows "length (renames (snd (snd (save_rgb_camera fs f meth c m)))) = 1"
proof -
  let ?r = "saveVideo fs f (at_camera m c) c Rgb"
  have v: "fst ?r = Returned True"
    using assms by (simp add: save_rgb_camera_def and_then_True_iff)
  show ?thesis
    unfolding save_rgb_camera_def and_then_events [OF v]
    by (simp add: renames_append saveVideo_renames [OF v] reopen_renames)
qed

lemma save_rgbd_camera_renames:
  assumes "fst (save_rgbd_camera fs f meth c m) = Returned True"
  shows "length (renames (snd (snd (save_rgbd_camera fs f meth c m)))) = 2"
proof -
  let ?r1 = "saveVideo fs f (at_camera m c) c Rgb"
  let ?m1 = "fst (snd ?r1)"
  let ?r2 = "saveVideo fs f ?m1 c Depth"
  let ?m2 = "fst (snd ?r2)"
  have v1: "fst ?r1 = Returned True"
    using assms by (simp add: save_rgbd_camera_def and_then_True_iff)
  have v2: "fst ?r2 = Returned True"
    using assms by (simp add: save_rgbd_camera_def and_then_True_iff)
  show ?thesis
  proof (cases "meth = periodic")
    case False
    then show ?thesis
      unfolding save_rgbd_camera_def and_then_events [OF v1] and_then_events [OF v2]
      by (simp add: renames_append saveVideo_renames [OF v1] saveVideo_renames [OF v2])
  next
    case True
    let ?r3 = "reopen fs ?m2 c Rgb (rgbdImgDimensions fs)"
    have v3: "fst ?r3 = Returned True"
      using assms True by (simp add: save_rgbd_camera_def and_then_True_iff)
    show ?thesis
      unfolding save_rgbd_camera_def and_then_events [OF v1] and_then_events [OF v2]
      using True
      by (simp add: and_then_events [OF v3] renames_append saveVideo_renames [OF v1]
          saveVideo_renames [OF v2] reopen_renames)
  qed
qed

lemma for_each_camera_renames:
  assumes body: "\<And>c m. fst (body c m) = Returned True
      \<Longrightarrow> length (renames (snd (snd (body c m)))) = n"
    and "fst (for_each_camera body cs m) = Returned True"
  shows "length (renames (snd (snd (for_each_camera body cs m)))) = n * length cs"
  using assms(2)
proof (induction cs arbitrary: m)
  case Nil
  show ?case by simp
next
  case (Cons c cs)
  have b: "fst (body c m) = Returned True"
    and rest: "fst (for_each_camera body cs (fst (snd (body c m)))) = Returned True"
    using Cons.prems by (simp_all add: and_then_True_iff)
  show ?case
    using body [OF b] Cons.IH [OF rest]
    by (simp add: and_then_events [OF b] renames_append)
qed

lemma saveCallback_rgb_stops:
  assumes "fst (saveCallback fs (pre @ [c]) [] fileName method m) \<noteq> Returned True"
  shows "saveCallback fs (pre @ c # post) rgbds fileName method m
           = saveCallback fs (pre @ [c]) [] fileName method m"
proof -
  let ?loop = "for_each_camera (save_rgb_camera fs fileName method)"
  have f: "fst (?loop (pre @ [c]) m) \<noteq> Returned True"
    using assms by (auto simp: saveCallback_def and_then_True_iff)
  have "saveCallback fs (pre @ c # post) rgbds fileName method m = ?loop (pre @ [c]) m"
    using f by (simp add: saveCallback_def for_each_camera_stops [OF f, of post] and_then_stops)
  moreover have "saveCallback fs (pre @ [c]) [] fileName method m = ?loop (pre @ [c]) m"
    unfolding saveCallback_def using f by (rule and_then_stops)
  ultimately show ?thesis by simp
qed

lemma saveCallback_rgbd_stops:
  assumes "fst (saveCallback fs rgbs (pre @ [c]) fileName method m) \<noteq> Returned True"
  shows "saveCallback fs rgbs (pre @ c # post) fileName method m
           = saveCallback fs rgbs (pre @ [c]) fileName method m"
proof (cases "fst (for_each_camera (save_rgb_camera fs fileName method) rgbs m) = Returned True")
  case False
  then show ?thesis by (simp add: saveCallback_def and_then_stops)
next
  case True
  let ?m1 = "fst (snd (for_each_camera (save_rgb_camera fs fileName method) rgbs m))"
  let ?loop = "for_each_camera (save_rgbd_camera fs fileName method)"
  have f: "fst (?loop (pre @ [c]) ?m1) \<noteq> Returned True"
    using assms True by (auto simp: saveCallback_def and_then_True_iff)
  show ?thesis
    using True
    by (simp add: saveCallback_def and_then_goes_on for_each_camera_stops [OF f, of post])
qed

lemma saveCallback_renames:
  assumes a: "fst (saveCallback fs rgbs rgbds fileName method m) = Returned True"
  shows "length (renames (snd (snd (saveCallback fs rgbs rgbds fileName method m))))
           = length rgbs + 2 * length rgbds"
proof -
  let ?r1 = "for_each_camera (save_rgb_camera fs fileName method) rgbs m"
  let ?r2 = "for_each_camera (save_rgbd_camera fs fileName method) rgbds (fst (snd ?r1))"
  have v1: "fst ?r1 = Returned True"
    using a by (simp add: saveCallback_def and_then_True_iff)
  have v2: "fst ?r2 = Returned True"
    using a by (simp add: saveCallback_def and_then_True_iff)
  have n1: "length (renames (snd (snd ?r1))) = 1 * length rgbs"
    using save_rgb_camera_renames v1 by (rule for_each_camera_renames)
  have n2: "length (renames (snd (snd ?r2))) = 2 * length rgbds"
    using save_rgbd_camera_renames v2 by (rule for_each_camera_renames)
  show ?thesis
    unfolding saveCallback_def and_then_events [OF v1]
    using n1 n2 by (simp add: and_then_events [OF v2] renames_append)
qed

text \<open>
  C1, as the code has it. The callback stops at the first step that fails. If it does not
  return true when the list of rgb cameras ends with \<open>c\<close>, it ends in the very same way,
  with the same writers and the same events, whatever cameras follow \<open>c\<close> in the list and
  whatever rgbd cameras there are: none of them is finalized. The same holds for the list
  of rgbd cameras. And when the callback returns true, one rename was made for every rgb
  camera and two for every rgbd camera.
\<close>

theorem saveCallback_stops_at_first_failure:
  "(fst (saveCallback fs (pre @ [c]) [] fileName method m) \<noteq> Returned True
      \<longrightarrow> saveCallback fs (pre @ c # post) rgbds fileName method m
            = saveCallback fs (pre @ [c]) [] fileName method m) \<and>
   (fst (saveCallback fs rgbs (pre @ [c]) fileName method m) \<noteq> Returned True
      \<longrightarrow> saveCallback fs rgbs (pre @ c # post) fileName method m
            = saveCallback fs rgbs (pre @ [c]) fileName method m) \<and>
   (fst (saveCallback fs rgbs rgbds fileName method m) = Returned True
      \<longrightarrow> length (renames (snd (snd (saveCallback fs rgbs rgbds fileName method m))))
            = length rgbs + 2 * length rgbds)"
  by (intro conjI impI)
    (erule saveCallback_rgb_stops, erule saveCallback_rgbd_stops, erule saveCallback_renames)

theorem saveCallback_stops_at_first_failure_witness:
  "fst (saveCallback (fs_rename_fails []) [''cam0''] [] ''log'' periodic first_null)
     \<noteq> Returned True \<and>
   saveCallback (fs_rename_fails []) [''cam0'', ''cam1''] [] ''log'' periodic first_null
     = saveCallback (fs_rename_fails []) [''cam0''] [] ''log'' periodic first_null \<and>
   fst (saveCallback (fs_rename_fails []) [''cam1''] [''cam0''] ''log'' periodic first_null)
     \<noteq> Returned True \<and>
   saveCallback (fs_rename_fails []) [''cam1''] [''cam0'', ''cam1''] ''log'' periodic first_null
     = saveCallback (fs_rename_fails []) [''cam1''] [''cam0''] ''log'' periodic first_null \<and>
   fst (saveCallback (fs_rename_fails []) [''cam1''] [] ''log'' periodic first_null)
     = Returned True \<and>
   length (renames (snd (snd
     (saveCallback (fs_rename_fails []) [''cam1''] [] ''log'' periodic first_null)))) = 1"
proof -
  note defs = saveCallback_def save_rgb_camera_def save_rgbd_camera_def saveVideo_def
    and_then_def at_camera_def saver_of_def set_saver_def first_null_def video_rgb_writer_def
    fs_rename_fails_def kind_name_def reopen_def openVideoWriter_def
  have h1: "fst (saveCallback (fs_rename_fails []) ([] @ [''cam0'']) [] ''log'' periodic first_null)
     \<noteq> Returned True"
    by (simp add: defs)
  have h2: "fst (saveCallback (fs_rename_fails []) [''cam1''] ([] @ [''cam0'']) ''log'' periodic
     first_null) \<noteq> Returned True"
    by (simp add: defs)
  have h3: "fst (saveCallback (fs_rename_fails []) [''cam1''] [] ''log'' periodic first_null)
     = Returned True"
    by (simp add: defs)
  note t = saveCallback_stops_at_first_failure [of "fs_rename_fails []" "[]" "''cam0''"
      "''log''" periodic first_null "[''cam1'']" "[]" "[''cam1'']"]
  note c1 = mp [OF conjunct1 [OF t] h1]
  note c2 = mp [OF conjunct1 [OF conjunct2 [OF t]] h2]
  note c3 = mp [OF conjunct2 [OF conjunct2 [OF t]] h3]
  show ?thesis
    using h1 h2 h3 c1 c2 c3 by simp
qed

text \<open>
  C1 as stated fails. With two rgb cameras whose image savers are both in place, when the
  rename of the first camera's video throws, the callback ends with the exception after
  releasing the first writer: nothing is done for the second camera, whose finalization
  alone would succeed. And when the image saver of the first camera is null, the
  callback returns false at once and the second camera is not finalized either.
\<close>

theorem saveCallback_short_circuit_counterexample:
  "fst (saveCallback (fs_rename_fails ''output_cam0_rgb.mp4'') [''cam0'', ''cam1''] [] ''log''
       periodic two_cameras) = Threw \<and>
   snd (snd (saveCallback (fs_rename_fails ''output_cam0_rgb.mp4'') [''cam0'', ''cam1''] []
       ''log'' periodic two_cameras)) = [ReleaseWriter ''cam0'' ''rgb''] \<and>
   fst (saveCallback (fs_rename_fails ''output_cam0_rgb.mp4'') [''cam1''] [] ''log''
       periodic two_cameras) = Returned True \<and>
   renames (snd (snd (saveCallback (fs_rename_fails ''output_cam0_rgb.mp4'') [''cam1''] []
       ''log'' periodic two_cameras)))
     = [(''output_cam1_rgb.mp4'', ''log_cam1_rgb.mp4'')] \<and>
   saveCallback (fs_rename_fails []) [''cam0'', ''cam1''] [] ''log'' periodic first_null
     = (Returned False, first_null, [])"
  by (simp add: saveCallback_def save_rgb_camera_def saveVideo_def and_then_def at_camera_def
      saver_of_def set_saver_def two_cameras_def first_null_def video_rgb_writer_def
      fs_rename_fails_def kind_name_def reopen_def openVideoWriter_def)

section \<open>Properties of the telemetry buffer capacity\<close>

lemma floor_rat_numeral:
  "\<lfloor>numeral a / numeral b :: rat\<rfloor> = numeral a div numeral b"
  using floor_divide_of_int_eq [of "numeral a" "numeral b", where ?'a = rat] by simp

lemma exponent_tenth: "exponent (1 / 10) = - 4"
  by (simp add: exponent_def expo_down.simps)

lemma exponent_110: "exponent 110 = 6"
  by (simp add: exponent_def expo_up.simps)

lemma binary64_tenth: "binary64 (1 / 10) = Some (3602879701896397 / 2 ^ 55)"
  by (simp add: binary64_def exponent_tenth round_half_even_def Let_def power_int_minus
      floor_rat_numeral)


lemma binary64_one_plus_tenth: "binary64 (1 + 3602879701896397 / 2 ^ 55) = Some (2476979795053773 / 2 ^ 51)"
  by (simp add: binary64_def exponent_def expo_up.simps expo_down.simps round_half_even_def
      Let_def power_int_minus floor_rat_numeral)

lemma binary64_quotient_100: "binary64 (1 / (5764607523034235 / 2 ^ 59)) = Some 100"
  by (simp add: binary64_def exponent_def expo_up.simps expo_down.simps round_half_even_def
      Let_def power_int_minus floor_rat_numeral)

lemma binary64_product_110: "binary64 (2476979795053773 / 2 ^ 51 * 100) = Some (110 + 1 / 2 ^ 46)"
  by (simp add: binary64_def exponent_def expo_up.simps expo_down.simps round_half_even_def
      Let_def power_int_minus floor_rat_numeral)

lemma binary64_quotient_10: "binary64 (1 / (7205759403792793 / 2 ^ 56)) = Some 10"
  by (simp add: binary64_def exponent_def expo_up.simps expo_down.simps round_half_even_def
      Let_def power_int_minus floor_rat_numeral)

lemma binary64_product_11: "binary64 (2476979795053773 / 2 ^ 51 * 10) = Some 11"
  by (simp add: binary64_def exponent_def expo_up.simps expo_down.simps round_half_even_def
      Let_def power_int_minus floor_rat_numeral)

lemma n_samples_111: "setupTelemetry_n_samples 1 (5764607523034235 / 2 ^ 59) = Some 111"
proof -
  have nz: "((5764607523034235 / 2 ^ 59 :: rat) = 0) = False" by simp
  have c: "\<lceil>110 + 1 / 2 ^ 46 :: rat\<rceil> = 111" by (simp add: ceiling_eq_iff)
  show ?thesis
    by (simp only: setupTelemetry_n_samples_def nz if_False binary64_tenth binary64_one_plus_tenth binary64_quotient_100 binary64_product_110 option.case c) simp
qed

lemma n_samples_11: "setupTelemetry_n_samples 1 (7205759403792793 / 2 ^ 56) = Some 11"
proof -
  have nz: "((7205759403792793 / 2 ^ 56 :: rat) = 0) = False" by simp
  have c: "\<lceil>11 :: rat\<rceil> = 11" by simp
  show ?thesis
    by (simp only: setupTelemetry_n_samples_def nz if_False binary64_tenth binary64_one_plus_tenth binary64_quotient_10 binary64_product_11 option.case c) simp
qed

lemma exact_ceiling_12: "\<lceil>11 / 10 * (1 / (7205759403792793 / 2 ^ 56 :: rat))\<rceil> = 12"
  by (simp add: ceiling_eq_iff)

lemma round_half_even_error: "\<bar>of_int (round_half_even y) - y\<bar> \<le> (1 / 2 :: rat)"
proof -
  have "of_int \<lfloor>y\<rfloor> \<le> y" "y < of_int \<lfloor>y\<rfloor> + 1" by linarith+
  then show ?thesis
    by (auto simp: round_half_even_def Let_def)
qed

lemma expo_up_lower: "1 \<le> x \<Longrightarrow> 2 powi (expo_up x) \<le> x"
proof (induction x rule: expo_up.induct)
  case (1 x)
  show ?case
  proof (cases "2 \<le> x")
    case True
    then have "2 powi (expo_up (x / 2)) \<le> x / 2" using "1.IH" by simp
    moreover have "(2::rat) powi (1 + expo_up (x / 2)) = 2 * 2 powi (expo_up (x / 2))"
      by (simp add: power_int_add)
    ultimately show ?thesis using True by (subst expo_up.simps) simp
  next
    case False
    then show ?thesis using "1.prems" by (subst expo_up.simps) simp
  qed
qed

lemma expo_down_lower: "0 < x \<Longrightarrow> x < 1 \<Longrightarrow> 2 powi (expo_down x) \<le> x"
proof (induction x rule: expo_down.induct)
  case (1 x)
  have unf: "expo_down x = expo_down (2 * x) - 1"
    using "1.prems" by (subst expo_down.simps) simp
  have p: "(2::rat) powi (expo_down (2 * x) - 1) = 2 powi (expo_down (2 * x)) / 2"
    by (simp add: power_int_diff)
  show ?case
  proof (cases "2 * x < 1")
    case True
    then have "2 powi (expo_down (2 * x)) \<le> 2 * x" using "1.IH" "1.prems" by simp
    then show ?thesis unfolding unf p by simp
  next
    case False
    then have "expo_down (2 * x) = 0" by (subst expo_down.simps) simp
    then show ?thesis unfolding unf p using False by simp
  qed
qed

lemma exponent_lower: "x \<noteq> 0 \<Longrightarrow> 2 powi (exponent x) \<le> \<bar>x\<bar>"
  by (simp add: exponent_def expo_up_lower expo_down_lower)

lemma expo_up_upper: "1 \<le> x \<Longrightarrow> x < 2 powi (expo_up x + 1)"
proof (induction x rule: expo_up.induct)
  case (1 x)
  show ?case
  proof (cases "2 \<le> x")
    case True
    then have "x / 2 < 2 powi (expo_up (x / 2) + 1)" using "1.IH" by simp
    moreover have "(2::rat) powi (1 + expo_up (x / 2) + 1) = 2 * 2 powi (expo_up (x / 2) + 1)"
      by (simp add: power_int_add)
    ultimately show ?thesis using True by (subst expo_up.simps) simp
  next
    case False
    then show ?thesis using "1.prems" by (subst expo_up.simps) simp
  qed
qed

lemma expo_down_upper: "0 < x \<Longrightarrow> x < 1 \<Longrightarrow> x < 2 powi (expo_down x + 1)"
proof (induction x rule: expo_down.induct)
  case (1 x)
  have unf: "expo_down x = expo_down (2 * x) - 1"
    using "1.prems" by (subst expo_down.simps) simp
  show ?case
  proof (cases "2 * x < 1")
    case True
    then have "2 * x < 2 powi (expo_down (2 * x) + 1)" using "1.IH" "1.prems" by simp
    moreover have "(2::rat) powi (expo_down (2 * x) + 1) = 2 * 2 powi (expo_down (2 * x))"
      by (simp add: power_int_add)
    ultimately show ?thesis unfolding unf by simp
  next
    case False
    then have "expo_down (2 * x) = 0" by (subst expo_down.simps) simp
    then show ?thesis unfolding unf using "1.prems" by simp
  qed
qed

lemma exponent_upper: "x \<noteq> 0 \<Longrightarrow> \<bar>x\<bar> < 2 powi (exponent x + 1)"
  by (simp add: exponent_def expo_up_upper expo_down_upper)

lemma binary64_error:
  assumes "binary64 x = Some y"
  shows "\<bar>y - x\<bar> \<le> \<bar>x\<bar> / 2 ^ 53 + 1 / 2 ^ 1075"
proof -
  define e where "e = max (exponent x) (- 1022) - 52"
  define u :: rat where "u = 2 powi e"
  have u: "0 < u" by (simp add: u_def)
  have y: "y = of_int (round_half_even (x / u)) * u"
    using assms by (simp add: binary64_def Let_def e_def u_def split: if_splits)
  have "\<bar>y - x\<bar> = \<bar>of_int (round_half_even (x / u)) - x / u\<bar> * u"
  proof -
    have "y - x = (of_int (round_half_even (x / u)) - x / u) * u"
      using u by (simp add: y field_simps)
    then show ?thesis using u by (simp add: abs_mult)
  qed
  also have "\<dots> \<le> 1 / 2 * u"
    using round_half_even_error [of "x / u"] u by (intro mult_right_mono) simp_all
  finally have half: "\<bar>y - x\<bar> \<le> u / 2" by simp
  show ?thesis
  proof (cases "- 1022 \<le> exponent x")
    case False
    then have "e = - 1074" by (simp add: e_def)
    then have "u / 2 = 1 / 2 ^ 1075" by (simp add: u_def power_int_minus field_simps)
    with half have "\<bar>y - x\<bar> \<le> 1 / 2 ^ 1075" by simp
    moreover have "0 \<le> \<bar>x\<bar> / 2 ^ 53" by simp
    ultimately show ?thesis by linarith
  next
    case True
    then have e: "e = exponent x - 52" by (simp add: e_def)
    show ?thesis
    proof (cases "x = 0")
      case True
      then have "y = 0" by (simp add: y round_half_even_def)
      then show ?thesis using True by simp
    next
      case False
      have "u = 2 powi (exponent x) / 2 ^ 52"
        by (simp add: u_def e power_int_diff)
      then have "u / 2 = 2 powi (exponent x) / 2 ^ 53" by simp
      also have "\<dots> \<le> \<bar>x\<bar> / 2 ^ 53"
        using exponent_lower [OF False] by (simp add: divide_right_mono)
      finally have "u / 2 \<le> \<bar>x\<bar> / 2 ^ 53" .
      moreover have "(0::rat) \<le> 1 / 2 ^ 1075" by simp
      ultimately show ?thesis using half by linarith
    qed
  qed
qed

lemma double_literals:
  "binary64 (1 / 100) = Some double_0_01"
  "binary64 (9999999999999999 / 10 ^ 17) = Some double_0_09999999999999999"
  by (simp_all add: binary64_def exponent_def expo_up.simps expo_down.simps round_half_even_def
      Let_def power_int_minus floor_rat_numeral double_0_01_def
      double_0_09999999999999999_def)

lemma n_samples_bound:
  assumes n: "setupTelemetry_n_samples save_period devicePeriod = Some n"
    and pos: "0 < save_period" "0 < devicePeriod"
  shows "\<lceil>11 / 10 * (save_period / devicePeriod)\<rceil> - 1 \<le> n"
proof -
  define t where "t = save_period / devicePeriod"
  define a :: rat where "a = 2476979795053773 / 2 ^ 51"
  have t: "0 < t" using pos by (simp add: t_def)
  from n obtain q v where
    q: "binary64 t = Some q" and v: "binary64 (a * q) = Some v"
    and r: "\<lceil>v\<rceil> < 2 ^ 31" and nv: "n = \<lceil>v\<rceil>"
    unfolding setupTelemetry_n_samples_def t_def [symmetric] a_def
    by (simp only: binary64_tenth binary64_one_plus_tenth option.case) (auto split: if_splits option.splits)
  have eta: "(1::rat) / 2 ^ 1075 \<le> 1 / 2 ^ 60"
    by (intro divide_left_mono power_increasing) simp_all
  have dq: "\<bar>q - t\<bar> \<le> t / 2 ^ 53 + 1 / 2 ^ 60"
    using binary64_error [OF q] t eta by simp
  have dv: "\<bar>v - a * q\<bar> \<le> \<bar>a * q\<bar> / 2 ^ 53 + 1 / 2 ^ 60"
    using binary64_error [OF v] eta by simp
  have aq: "\<bar>a * q\<bar> = a * \<bar>q\<bar>" by (simp add: a_def abs_mult)
  have vlt: "v < 2 ^ 31"
  proof -
    have "v \<le> of_int \<lceil>v\<rceil>" by simp
    also have "\<dots> < 2 ^ 31" using r by (metis of_int_less_numeral_power_cancel_iff)
    finally show ?thesis .
  qed
  have q_lo: "t - (t / 2 ^ 53 + 1 / 2 ^ 60) \<le> q"
    using dq by linarith
  have v_lo: "a * q - (a * \<bar>q\<bar> / 2 ^ 53 + 1 / 2 ^ 60) \<le> v"
    using dv unfolding aq by linarith
  have "11 / 10 * t - 1 < v"
  proof (cases "0 \<le> q")
    case True
    then have "a * q - (a * q / 2 ^ 53 + 1 / 2 ^ 60) \<le> v"
      using v_lo by simp
    then show ?thesis
      using q_lo vlt t unfolding a_def by simp
  next
    case False
    then have "a * q - (a * (- q) / 2 ^ 53 + 1 / 2 ^ 60) \<le> v"
      using v_lo by simp
    then show ?thesis
      using q_lo False t unfolding a_def by simp
  qed
  moreover have "v \<le> of_int \<lceil>v\<rceil>" by simp
  ultimately have "11 / 10 * t < of_int (\<lceil>v\<rceil> + 1)"
    unfolding of_int_add of_int_1 by linarith
  then have "\<lceil>11 / 10 * t\<rceil> \<le> \<lceil>v\<rceil> + 1"
    by (simp only: ceiling_le_iff less_imp_le)
  then show ?thesis by (simp add: nv t_def)
qed

text \<open>
  C6, as the code has it. For positive periods for which the computation gives a
  capacity, the capacity is at least \<open>ceil(1.1 * save_period / devicePeriod) - 1\<close>: the
  roundings of the double computation can cost one sample against the exact ceiling,
  and no more. For a save period of 1.0 s and a device period of 0.01 s the capacity
  is 111, which is at least 110.
\<close>

theorem n_samples_at_least_ceiling_minus_one:
  assumes "setupTelemetry_n_samples save_period devicePeriod = Some n"
    and "0 < save_period" and "0 < devicePeriod"
  shows "\<lceil>11 / 10 * (save_period / devicePeriod)\<rceil> - 1 \<le> n \<and>
         setupTelemetry_n_samples 1 double_0_01 = Some 111"
  using n_samples_bound [OF assms] n_samples_111 by (simp add: double_0_01_def)

theorem n_samples_at_least_ceiling_minus_one_witness:
  "setupTelemetry_n_samples 1 double_0_01 = Some 111 \<and> (0 :: rat) < 1 \<and> 0 < double_0_01 \<and>
   \<lceil>11 / 10 * (1 / double_0_01)\<rceil> - 1 \<le> (111 :: int)"
proof -
  have h: "setupTelemetry_n_samples 1 double_0_01 = Some 111"
    using n_samples_111 by (simp add: double_0_01_def)
  have p1: "(0 :: rat) < 1" by simp
  have p2: "0 < double_0_01" by (simp add: double_0_01_def)
  note t = conjunct1 [OF n_samples_at_least_ceiling_minus_one [OF h p1 p2]]
  show ?thesis
    by (rule conjI [OF h conjI [OF p1 conjI [OF p2 t]]])
qed

text \<open>
  C6 as stated fails. For a save period of 1.0 s and a device period of
  0.09999999999999999 s the quotient rounds to 10 and the product to 11, so the capacity
  is 11, while the exact value of \<open>ceil(1.1 * save_period / devicePeriod)\<close> is 12.
\<close>

theorem n_samples_below_exact_ceiling_counterexample:
  "setupTelemetry_n_samples 1 double_0_09999999999999999 = Some 11 \<and>
   \<lceil>11 / 10 * (1 / double_0_09999999999999999)\<rceil> = 12"
  using n_samples_11 exact_ceiling_12 by (simp add: double_0_09999999999999999_def)

end
